theory Spec2Isabelle
  imports Complex_Main "HOL-Library.Product_Lexorder"
begin

section \<open>Photini: thumbnail list and importer\<close>

text \<open>
  A shallow embedding of the parts of \<^verbatim>\<open>photini/imagelist.py\<close> and
  \<^verbatim>\<open>photini/importer.py\<close> that decide the behaviour of the thumbnail grid,
  the image list, thumbnail regeneration and the import pane. Python integers are
  \<open>int\<close>, Python exceptions are values of \<open>py_error\<close>, and everything the Qt
  widgets hold is explicit state.
\<close>

datatype py_error =
    ZeroDivisionError | ValueError | KeyError | IndexError | AttributeError | TypeError
  | RuntimeError | GPhoto2Error

subsection \<open>ThumbsLayout\<close>

record qsize =
  sz_w :: int
  sz_h :: int

record qrect =
  r_x :: int
  r_y :: int
  r_size :: qsize

record margins =
  m_left :: int
  m_top :: int
  m_right :: int
  m_bottom :: int

text \<open>What \<^verbatim>\<open>_do_layout\<close> leaves behind: the stored size hint, the geometry given to
  each item in list order, and the argument of \<^verbatim>\<open>scroll_area.set_multi_row\<close>
  (\<open>None\<close> when the method returns before calling it).\<close>

record layout_result =
  size_hint :: qsize
  geometries :: "qrect list"
  set_multi_row :: "bool option"

text \<open>Python's \<^verbatim>\<open>a // b\<close> on integers: floor division, raising on a zero divisor.
  HOL's \<open>div\<close> on \<open>int\<close> rounds towards minus infinity as Python does.\<close>

definition py_floordiv :: "int \<Rightarrow> int \<Rightarrow> py_error + int" where
  "py_floordiv a b = (if b = 0 then Inl ZeroDivisionError else Inr (a div b))"

text \<open>The loop \<^verbatim>\<open>for n, item in enumerate(self.item_list)\<close>; \<open>n\<close> is the running
  index. \<open>columns\<close> is at least one whenever the loop runs, so \<^verbatim>\<open>%\<close> and
  \<^verbatim>\<open>//\<close> cannot raise here.\<close>

fun place_items :: "int \<Rightarrow> int \<Rightarrow> int \<Rightarrow> qsize \<Rightarrow> int \<Rightarrow> 'a list \<Rightarrow> qrect list" where
  "place_items x y columns item_size n [] = []"
| "place_items x y columns item_size n (item # items) =
     (let i = n mod columns; j = n div columns in
      \<lparr>r_x = x + (i * sz_w item_size), r_y = y + (j * sz_h item_size), r_size = item_size\<rparr>
        # place_items x y columns item_size (n + 1) items)"

text \<open>\<^verbatim>\<open>ThumbsLayout._do_layout(origin)\<close>. \<open>item_list\<close> holds the \<^verbatim>\<open>sizeHint()\<close>
  of each item; only the first one is read.\<close>

definition do_layout ::
  "margins \<Rightarrow> qsize \<Rightarrow> qsize list \<Rightarrow> int \<times> int \<Rightarrow> py_error + layout_result" where
  "do_layout cm viewport_size item_list origin =
     (let width_hint = m_left cm + m_right cm;
          height_hint = m_top cm + m_bottom cm in
      case item_list of
        [] \<Rightarrow> Inr \<lparr>size_hint = \<lparr>sz_w = width_hint, sz_h = height_hint\<rparr>,
                    geometries = [], set_multi_row = None\<rparr>
      | item_size # _ \<Rightarrow>
          (let item_h = sz_h item_size;
               item_w = sz_w item_size;
               multi_row = (sz_h viewport_size - height_hint > item_h) in
           case (if multi_row
                 then (case py_floordiv (sz_w viewport_size - width_hint) item_w of
                         Inl e \<Rightarrow> Inl e
                       | Inr q \<Rightarrow>
                           (let columns = max q 1 in
                            Inr (columns, (int (length item_list) + columns - 1) div columns)))
                 else Inr (int (length item_list), 1)) of
             Inl e \<Rightarrow> Inl e
           | Inr (columns, rows) \<Rightarrow>
               (let width_hint = width_hint + columns * item_w;
                    height_hint = height_hint + rows * item_h;
                    x = fst origin + m_left cm;
                    y = snd origin + m_top cm in
                Inr \<lparr>size_hint = \<lparr>sz_w = width_hint, sz_h = height_hint\<rparr>,
                      geometries = place_items x y columns item_size 0 item_list,
                      set_multi_row = Some multi_row\<rparr>)))"

subsection \<open>ImageList\<close>

text \<open>
  An \<^verbatim>\<open>Image\<close> widget is a mutable object that the list, \<^verbatim>\<open>last_selected\<close> and
  \<^verbatim>\<open>selection_anchor\<close> all point to, and Python compares widgets by identity. So
  the widgets live in a store indexed by reference, and the list holds references.
  Of an \<^verbatim>\<open>Image\<close> the model keeps the path, the \<^verbatim>\<open>selected\<close> attribute and the
  answer of \<^verbatim>\<open>metadata.changed()\<close>.
\<close>

type_synonym ref = nat

record image =
  path :: string
  selected :: bool
  md_changed :: bool

record image_list =
  images :: "ref list"
  heap :: "ref \<Rightarrow> image"
  next_ref :: ref
  last_selected :: "ref option"
  selection_anchor :: "ref option"

text \<open>\<^verbatim>\<open>ImageList.__init__\<close>: no images, nothing selected.\<close>

definition new_image_list :: image_list where
  "new_image_list =
     \<lparr>images = [], heap = (\<lambda>_. \<lparr>path = [], selected = False, md_changed = False\<rparr>),
      next_ref = 0, last_selected = None, selection_anchor = None\<rparr>"

definition image_paths :: "image_list \<Rightarrow> string list" where
  "image_paths s = map (\<lambda>r. path (heap s r)) (images s)"

text \<open>\<^verbatim>\<open>ImageList.get_image(path)\<close>: the first image with that path, or \<^verbatim>\<open>None\<close>.\<close>

fun get_image_in :: "(ref \<Rightarrow> image) \<Rightarrow> ref list \<Rightarrow> string \<Rightarrow> ref option" where
  "get_image_in h [] p = None"
| "get_image_in h (img # rest) p =
     (if path (h img) = p then Some img else get_image_in h rest p)"

definition get_image :: "image_list \<Rightarrow> string \<Rightarrow> ref option" where
  "get_image s p = get_image_in (heap s) (images s) p"

text \<open>\<^verbatim>\<open>ImageList.open_file(path)\<close>. \<open>abspath\<close> is \<^verbatim>\<open>os.path.abspath\<close> and \<open>isfile\<close>
  is \<^verbatim>\<open>os.path.isfile\<close> at the time of the call. \<^verbatim>\<open>Image(path, ...)\<close> allocates a
  new widget, unselected (\<^verbatim>\<open>self.selected = False\<close>) with freshly read metadata.\<close>

definition open_file ::
  "(string \<Rightarrow> string) \<Rightarrow> (string \<Rightarrow> bool) \<Rightarrow> image_list \<Rightarrow> string \<Rightarrow> image_list" where
  "open_file abspath isfile s path0 =
     (let p = abspath path0 in
      if \<not> isfile p then s
      else if get_image s p \<noteq> None then s
      else
        (let img = next_ref s in
         s\<lparr>images := images s @ [img],
           heap := (heap s)(img := \<lparr>path = p, selected = False, md_changed = False\<rparr>),
           next_ref := Suc img\<rparr>))"

text \<open>A sequence of \<^verbatim>\<open>open_file\<close> calls; each call comes with the file system's
  \<^verbatim>\<open>isfile\<close> as it is when the call is made.\<close>

fun open_file_calls ::
  "(string \<Rightarrow> string) \<Rightarrow> image_list \<Rightarrow> ((string \<Rightarrow> bool) \<times> string) list \<Rightarrow> image_list" where
  "open_file_calls abspath s [] = s"
| "open_file_calls abspath s ((isfile, p) # calls) =
     open_file_calls abspath (open_file abspath isfile s p) calls"

text \<open>\<^verbatim>\<open>Image.set_selected(value)\<close> and \<^verbatim>\<open>Image.get_selected()\<close> on the widget \<open>r\<close>.\<close>

definition set_selected :: "ref \<Rightarrow> bool \<Rightarrow> image_list \<Rightarrow> image_list" where
  "set_selected r v s = s\<lparr>heap := (heap s)(r := (heap s r)\<lparr>selected := v\<rparr>)\<rparr>"

definition get_selected :: "image_list \<Rightarrow> ref \<Rightarrow> bool" where
  "get_selected s r = selected (heap s r)"

text \<open>\<^verbatim>\<open>list.index(x)\<close>: the first position of \<open>x\<close>; \<open>None\<close> stands for the
  \<^verbatim>\<open>ValueError\<close> Python raises when \<open>x\<close> is not in the list.\<close>

fun list_index :: "'a list \<Rightarrow> 'a \<Rightarrow> nat option" where
  "list_index [] x = None"
| "list_index (y # ys) x = (if y = x then Some 0 else map_option Suc (list_index ys x))"

text \<open>\<^verbatim>\<open>for i in range(min(idx1, idx2), max(idx1, idx2) + 1):
  self.images[i].set_selected(value)\<close>\<close>

definition set_selected_range :: "nat \<Rightarrow> nat \<Rightarrow> bool \<Rightarrow> image_list \<Rightarrow> image_list" where
  "set_selected_range idx1 idx2 v s =
     fold (\<lambda>i s. set_selected (images s ! i) v s) [min idx1 idx2 ..< max idx1 idx2 + 1] s"

text \<open>\<^verbatim>\<open>ImageList._clear_selection()\<close>\<close>

definition clear_selection :: "image_list \<Rightarrow> image_list" where
  "clear_selection s =
     fold (\<lambda>img s. if get_selected s img then set_selected img False s else s) (images s) s"

text \<open>\<^verbatim>\<open>ImageList.get_selected_images()\<close>\<close>

definition get_selected_images :: "image_list \<Rightarrow> ref list" where
  "get_selected_images s = filter (get_selected s) (images s)"

text \<open>\<^verbatim>\<open>ImageList.select_image(image, extend_selection, multiple_selection)\<close>.
  Scrolling and the \<^verbatim>\<open>selection_changed\<close> signal leave the state alone. A widget
  reference is true in a Python condition, so \<^verbatim>\<open>self.selection_anchor\<close> is false
  exactly when it is \<^verbatim>\<open>None\<close>; \<^verbatim>\<open>self.images.index(None)\<close> raises
  \<^verbatim>\<open>ValueError\<close> like any other absent element.\<close>

definition select_image ::
  "ref \<Rightarrow> bool \<Rightarrow> bool \<Rightarrow> image_list \<Rightarrow> py_error + image_list" where
  "select_image img extend_selection multiple_selection s =
     (if extend_selection \<and> selection_anchor s \<noteq> None then
        (case list_index (images s) (the (selection_anchor s)) of
           None \<Rightarrow> Inl ValueError
         | Some idx1 \<Rightarrow>
            (case (case last_selected s of None \<Rightarrow> None
                   | Some l \<Rightarrow> list_index (images s) l) of
               None \<Rightarrow> Inl ValueError
             | Some idx2 \<Rightarrow>
                (let s1 = set_selected_range idx1 idx2 False s in
                 case list_index (images s1) img of
                   None \<Rightarrow> Inl ValueError
                 | Some idx2' \<Rightarrow>
                    (let s2 = set_selected_range idx1 idx2' True s1 in
                     Inr (s2\<lparr>last_selected := Some img\<rparr>)))))
      else if multiple_selection then
        (let s1 = set_selected img (\<not> get_selected s img) s in
         Inr (s1\<lparr>selection_anchor := Some img, last_selected := Some img\<rparr>))
      else
        (let s1 = clear_selection s;
             s2 = set_selected img True s1 in
         Inr (s2\<lparr>selection_anchor := Some img, last_selected := Some img\<rparr>)))"

text \<open>The answer of the ``unsaved data'' message box, which offers Save, Cancel and
  Discard.\<close>

datatype dialog_button = Save | Cancel | Discard

text \<open>\<^verbatim>\<open>ImageList._save_files()\<close> as \<^verbatim>\<open>unsaved_files_dialog\<close> calls it, with no
  argument: every image of the list is saved. \<open>save\<close> is the effect of
  \<^verbatim>\<open>image.metadata.save(...)\<close> on one widget (the \<^verbatim>\<open>Metadata\<close> class belongs to
  another module).\<close>

definition save_files :: "(image \<Rightarrow> image) \<Rightarrow> image_list \<Rightarrow> image_list" where
  "save_files save s = fold (\<lambda>img s. s\<lparr>heap := (heap s)(img := save (heap s img))\<rparr>) (images s) s"

text \<open>\<^verbatim>\<open>ImageList.unsaved_files_dialog(all_files)\<close> with its default
  \<^verbatim>\<open>with_cancel\<close> and \<^verbatim>\<open>with_discard\<close>. \<open>answer\<close> is what the user would
  press. The result is the returned boolean, the state, and whether the message box was
  shown.\<close>

definition unsaved_affected :: "bool \<Rightarrow> image_list \<Rightarrow> bool" where
  \<comment> \<open>the \<^verbatim>\<open>for ... break\<close> loop: true when it breaks, false when it reaches \<^verbatim>\<open>else\<close>\<close>
  "unsaved_affected all_files s =
     list_ex (\<lambda>img. md_changed (heap s img) \<and> (all_files \<or> selected (heap s img))) (images s)"

definition unsaved_files_dialog ::
  "(image \<Rightarrow> image) \<Rightarrow> dialog_button \<Rightarrow> bool \<Rightarrow> image_list \<Rightarrow> bool \<times> image_list \<times> bool" where
  "unsaved_files_dialog save answer all_files s =
     (if \<not> unsaved_affected all_files s
      then (True, s, False)
      else if answer = Save then (True, save_files save s, True)
      else (answer = Discard, s, True))"

text \<open>\<^verbatim>\<open>list.remove(x)\<close>: drops the first occurrence, \<^verbatim>\<open>ValueError\<close> when there is
  none.\<close>

definition list_remove :: "'a \<Rightarrow> 'a list \<Rightarrow> py_error + 'a list" where
  "list_remove x xs = (if x \<in> set xs then Inr (remove1 x xs) else Inl ValueError)"

text \<open>The loop \<^verbatim>\<open>for image in close_list: self.images.remove(image) ...\<close>\<close>

fun remove_images :: "ref list \<Rightarrow> ref list \<Rightarrow> py_error + ref list" where
  "remove_images [] ims = Inr ims"
| "remove_images (img # close_list) ims =
     (case list_remove img ims of
        Inl e \<Rightarrow> Inl e
      | Inr ims' \<Rightarrow> remove_images close_list ims')"

text \<open>\<^verbatim>\<open>ImageList.close_files(all_files)\<close>. The result is the state and whether the
  message box was shown.\<close>

definition close_files ::
  "(image \<Rightarrow> image) \<Rightarrow> dialog_button \<Rightarrow> bool \<Rightarrow> image_list \<Rightarrow> py_error + (image_list \<times> bool)" where
  "close_files save answer all_files s =
     (case unsaved_files_dialog save answer all_files s of
        (ok, s1, shown) \<Rightarrow>
          if \<not> ok then Inr (s1, shown)
          else
            (let close_list = (if all_files then images s1 else get_selected_images s1) in
             case close_list of
               [] \<Rightarrow> Inr (s1, shown)
             | first # _ \<Rightarrow>
                (case list_index (images s1) first of
                   None \<Rightarrow> Inl ValueError
                 | Some idx \<Rightarrow>
                    (case remove_images close_list (images s1) of
                       Inl e \<Rightarrow> Inl e
                     | Inr ims \<Rightarrow>
                        (let s2 = s1\<lparr>images := ims\<rparr> in
                         if idx < length (images s2)
                         then (case select_image (images s2 ! idx) False False s2 of
                                 Inl e \<Rightarrow> Inl e
                               | Inr s3 \<Rightarrow> Inr (s3, shown))
                         else Inr (s2\<lparr>last_selected := None, selection_anchor := None\<rparr>,
                                   shown))))))"

text \<open>Every widget of the list has been allocated: its reference is below the next
  free one. \<^verbatim>\<open>open_file\<close> keeps this, and with it a new widget is never one that
  is already in the list.\<close>

definition refs_allocated :: "image_list \<Rightarrow> bool" where
  "refs_allocated s \<longleftrightarrow> (\<forall>r \<in> set (images s). r < next_ref s)"

subsection \<open>Image.regenerate_thumbnail\<close>

text \<open>
  A \<^verbatim>\<open>QImage\<close> as far as the thumbnail code reads it: its width and height, and where
  the top left corner of the picture read from the file lies in it (\<open>(0, 0)\<close> until
  \<^verbatim>\<open>copy\<close> pads it). Qt's null image, which a failed read gives, has no size.
\<close>

record qimage =
  im_w :: int
  im_h :: int
  pic_x :: int
  pic_y :: int

definition is_null :: "qimage \<Rightarrow> bool" where
  "is_null im \<longleftrightarrow> im_w im \<le> 0 \<or> im_h im \<le> 0"

text \<open>\<^verbatim>\<open>QImage.copy(x, y, w, h)\<close>: the \<open>w\<close> by \<open>h\<close> image whose origin is the
  point \<open>(x, y)\<close> of the source; outside the source it is blank.\<close>

definition qcopy :: "int \<Rightarrow> int \<Rightarrow> int \<Rightarrow> int \<Rightarrow> qimage \<Rightarrow> qimage" where
  "qcopy x y w h im = \<lparr>im_w = w, im_h = h, pic_x = pic_x im - x, pic_y = pic_y im - y\<rparr>"

text \<open>What OpenCV answers for the file: the capture does not open, the read of the first
  frame fails, or a frame of shape \<open>(height, width, channel)\<close> comes back.\<close>

datatype video_capture = NotOpened | ReadFailed | Frame int int int

text \<open>The libraries around one \<^verbatim>\<open>regenerate_thumbnail\<close> call: whether \<^verbatim>\<open>cv2\<close> and
  \<^verbatim>\<open>PIL\<close> were imported, what \<^verbatim>\<open>QtGui.QImage(self.path)\<close> reads, what OpenCV
  reads, and Qt's \<^verbatim>\<open>scaled(6000, 6000, Qt.KeepAspectRatio, ...)\<close>.\<close>

record libraries =
  cv2 :: bool
  pil :: bool
  qt_read :: qimage
  cv_read :: video_capture
  scaled_6000 :: "qimage \<Rightarrow> qimage"

datatype scaler = PIL_resize | Qt_scaled

text \<open>The tuple \<^verbatim>\<open>data, fmt, w, h\<close> stored as \<^verbatim>\<open>metadata.thumbnail\<close>. The bytes
  \<^verbatim>\<open>data\<close> are the picture \<open>th_source\<close> resized to \<open>th_w\<close> by \<open>th_h\<close> by
  \<open>th_scaler\<close> and saved in format \<open>th_fmt\<close>.\<close>

record thumbnail =
  th_source :: qimage
  th_scaler :: scaler
  th_fmt :: string
  th_w :: int
  th_h :: int

text \<open>The attributes of an \<^verbatim>\<open>Image\<close> that \<^verbatim>\<open>regenerate_thumbnail\<close> reads and
  writes.\<close>

record image_file =
  file_path :: string
  file_type :: string
  md_orientation :: "int option"
  md_thumbnail :: "thumbnail option"

text \<open>\<^verbatim>\<open>Image.get_video_frame()\<close>: \<^verbatim>\<open>None\<close>, or the image built from the first
  frame.\<close>

definition get_video_frame :: "libraries \<Rightarrow> qimage option" where
  "get_video_frame lib =
     (if \<not> cv2 lib then None
      else case cv_read lib of
        NotOpened \<Rightarrow> None
      | ReadFailed \<Rightarrow> None
      | Frame height width channel \<Rightarrow>
          if channel = 4 \<or> channel = 3 \<or> channel = 1
          then Some \<lparr>im_w = width, im_h = height, pic_x = 0, pic_y = 0\<rparr>
          else None)"

text \<open>\<^verbatim>\<open>Image.transform(pixmap, orientation, inverse)\<close>: reflection and the half turn
  keep the size, the transposition (bit \<^verbatim>\<open>0b100\<close>) swaps width and height.\<close>

definition transform_image :: "qimage \<Rightarrow> int option \<Rightarrow> qimage" where
  "transform_image pixmap orientation0 =
     (let orientation = (case orientation0 of None \<Rightarrow> 1 | Some v \<Rightarrow> if v = 0 then 1 else v) - 1 in
      if orientation = 0 then pixmap
      else if (orientation div 4) mod 2 = 1
      then \<lparr>im_w = im_h pixmap, im_h = im_w pixmap, pic_x = 0, pic_y = 0\<rparr>
      else pixmap)"

text \<open>Python's \<^verbatim>\<open>int(x)\<close> on a float: truncation towards zero.\<close>

definition py_int :: "real \<Rightarrow> int" where
  "py_int x = (if 0 \<le> x then \<lfloor>x\<rfloor> else \<lceil>x\<rceil>)"

text \<open>
  \<^verbatim>\<open>int(0.5 + (float(a) / b))\<close> with \<open>b\<close> one of \<^verbatim>\<open>4.0\<close> and \<^verbatim>\<open>3.0\<close>. The
  floats are read as the reals they stand for. Here \<open>a\<close> is three or four times a width
  or height of at most 6000, so \<open>a\<close> is exact, the quotient is off by less than
  \<open>1 / 2 ^ 30\<close>, and the exact sum lies at least one sixth away from the next integer:
  the float computation gives the same integer.
\<close>

definition round_div :: "int \<Rightarrow> int \<Rightarrow> int" where
  "round_div a b = py_int (1/2 + real_of_int a / real_of_int b)"

text \<open>The first part of \<^verbatim>\<open>regenerate_thumbnail\<close>: read the image, fall back on the
  first video frame, give up on a null image (\<open>None\<close>), reorient the raw formats that
  need it.\<close>

definition starts_with :: "string \<Rightarrow> string \<Rightarrow> bool" where
  "starts_with s prefix = (take (length prefix) s = prefix)"

definition read_image :: "libraries \<Rightarrow> image_file \<Rightarrow> qimage option" where
  "read_image lib self =
     (let qt_im = Some (qt_read lib);
          qt_im = (if starts_with (file_type self) ''video'' \<and> is_null (qt_read lib)
                   then get_video_frame lib else qt_im) in
      case qt_im of
        None \<Rightarrow> None
      | Some im \<Rightarrow>
          if is_null im then None
          else if file_type self = ''image/x-canon-cr2'' \<or> file_type self = ''image/x-nikon-nef''
          then Some (transform_image im (md_orientation self))
          else Some im)"

text \<open>The pre-shrink of very large images.\<close>

definition pre_shrink :: "libraries \<Rightarrow> qimage \<Rightarrow> qimage" where
  "pre_shrink lib qt_im =
     (if max (im_w qt_im) (im_h qt_im) \<ge> 6000 then scaled_6000 lib qt_im else qt_im)"

text \<open>The padding to 4:3, or 3:4 for a picture higher than wide. The result is the padded
  image and the size \<^verbatim>\<open>w, h\<close> the thumbnail is to have.\<close>

definition pad_picture :: "qimage \<Rightarrow> qimage \<times> int \<times> int" where
  "pad_picture qt_im =
     (let w = im_w qt_im; h = im_h qt_im in
      if w \<ge> h then
        (let new_h = round_div (w * 3) 4;
             new_w = round_div (h * 4) 3 in
         (if new_h > h then qcopy 0 (- ((new_h - h) div 2)) w new_h qt_im
          else if new_w > w then qcopy (- ((new_w - w) div 2)) 0 new_w h qt_im
          else qt_im,
          160, 120))
      else
        (let new_h = round_div (w * 4) 3;
             new_w = round_div (h * 3) 4 in
         (if new_w > w then qcopy (- ((new_w - w) div 2)) 0 new_w h qt_im
          else if new_h > h then qcopy 0 (- ((new_h - h) div 2)) w new_h qt_im
          else qt_im,
          120, 160)))"

text \<open>\<^verbatim>\<open>Image.regenerate_thumbnail()\<close>. The result is the image file after the call
  and the errors logged.\<close>

definition regenerate_thumbnail :: "libraries \<Rightarrow> image_file \<Rightarrow> image_file \<times> string list" where
  "regenerate_thumbnail lib self =
     (case read_image lib self of
        None \<Rightarrow>
          (self, [''Cannot read '' @ file_type self @ '' image data from '' @ file_path self])
      | Some qt_im \<Rightarrow>
          (case pad_picture (pre_shrink lib qt_im) of
             (padded, w, h) \<Rightarrow>
               (self\<lparr>md_thumbnail :=
                   Some \<lparr>th_source = padded,
                         th_scaler = (if pil lib then PIL_resize else Qt_scaled),
                         th_fmt = ''JPEG'', th_w = w, th_h = h\<rparr>\<rparr>,
                [])))"

subsection \<open>Dates and times\<close>

text \<open>
  A naive \<^verbatim>\<open>datetime\<close>: year, month, day, hour, minute, second, microsecond. Python
  compares two of them field by field in this order, which is the lexicographic order of
  the tuples.
\<close>

type_synonym datetime = "nat \<times> nat \<times> nat \<times> nat \<times> nat \<times> nat \<times> nat"

definition datetime_min :: datetime where
  "datetime_min = (1, 1, 1, 0, 0, 0, 0)"

subsection \<open>NameMangler\<close>

text \<open>One entry of the importer's \<^verbatim>\<open>file_data\<close>: a dict with the keys
  \<^verbatim>\<open>camera\<close>, \<^verbatim>\<open>path\<close> (or \<^verbatim>\<open>folder\<close> for a camera), \<^verbatim>\<open>name\<close>,
  \<^verbatim>\<open>timestamp\<close> and, once \<^verbatim>\<open>show_file_list\<close> has run, \<^verbatim>\<open>dest_path\<close>.\<close>

record file_info =
  fi_camera :: "string option"
  fi_path :: string
  fi_name :: string
  fi_timestamp :: datetime
  fi_dest_path :: string

definition is_digit :: "char \<Rightarrow> bool" where
  "is_digit c \<longleftrightarrow> c \<in> set ''0123456789''"

text \<open>\<^verbatim>\<open>re.compile('(\d+)').findall(name)\<close>: the maximal runs of decimal digits, from
  left to right. \<open>run\<close> is the run being read.\<close>

fun findall_digits :: "string \<Rightarrow> string \<Rightarrow> string list" where
  "findall_digits run [] = (if run = [] then [] else [run])"
| "findall_digits run (c # cs) =
     (if is_digit c then findall_digits (run @ [c]) cs
      else if run = [] then findall_digits [] cs
      else run # findall_digits [] cs)"

text \<open>\<^verbatim>\<open>str.rfind(c)\<close> for one character: the last index, or \<open>-1\<close>.\<close>

fun rfind_from :: "int \<Rightarrow> int \<Rightarrow> char \<Rightarrow> string \<Rightarrow> int" where
  "rfind_from i found c [] = found"
| "rfind_from i found c (x # xs) = rfind_from (i + 1) (if x = c then i else found) c xs"

definition rfind :: "string \<Rightarrow> char \<Rightarrow> int" where
  "rfind p c = rfind_from 0 (- 1) c p"

text \<open>\<^verbatim>\<open>os.path.splitext\<close> of \<^verbatim>\<open>posixpath\<close>: the extension starts at the last dot
  of the last path component, unless only dots come before it in that component.\<close>

definition splitext :: "string \<Rightarrow> string \<times> string" where
  "splitext p =
     (let sepIndex = rfind p (CHR ''/'');
          dotIndex = rfind p (CHR ''.'') in
      if dotIndex > sepIndex \<and>
         list_ex (\<lambda>filenameIndex. p ! filenameIndex \<noteq> CHR ''.'')
           [nat (sepIndex + 1) ..< nat dotIndex]
      then (take (nat dotIndex) p, drop (nat dotIndex) p)
      else (p, []))"

text \<open>\<^verbatim>\<open>s.replace(' ', '_')\<close>\<close>

definition replace_spaces :: "string \<Rightarrow> string" where
  "replace_spaces s = map (\<lambda>c. if c = CHR '' '' then CHR ''_'' else c) s"

text \<open>The dict \<^verbatim>\<open>subst\<close> that \<^verbatim>\<open>transform\<close> builds. A \<^verbatim>\<open>None\<close> or empty camera
  is false in \<^verbatim>\<open>file_data['camera'] or 'unknown_camera'\<close>.\<close>

definition make_subst :: "file_info \<Rightarrow> (string \<times> string) list" where
  "make_subst file_data =
     (let name = fi_name file_data;
          numbers = findall_digits [] name;
          number = (if numbers \<noteq> [] then last numbers else []);
          (root, ext) = splitext name;
          camera = (case fi_camera file_data of
                      None \<Rightarrow> ''unknown_camera''
                    | Some c \<Rightarrow> if c = [] then ''unknown_camera'' else c);
          camera = replace_spaces camera in
      [(''name'', name), (''number'', number), (''root'', root), (''ext'', ext),
       (''camera'', camera)])"

text \<open>
  \<^verbatim>\<open>format_string.format(**subst)\<close>: Python's scanner for format strings, one
  character at a time, for a call without positional arguments. A replacement field is
  \<^verbatim>\<open>{name!conversion:spec}\<close>. The model renders a field that is a bare key itself; a
  field with an attribute or index after the key, a conversion or a format specification
  is handed, once its key is found, to \<open>render\<close>, which stands for the rest of the
  library and gets the dict, the field name, the conversion and the specification.
\<close>

datatype scan_state =
    Lit
  | Open_brace
  | Close_brace
  | Field_name string
  | Field_bracket string
  | Conversion string
  | After_conversion string char
  | Format_spec string "char option" string nat

type_synonym renderer =
  "(string \<times> string) list \<Rightarrow> string \<Rightarrow> char option \<Rightarrow> string \<Rightarrow> py_error + string"

text \<open>The value of one field. The first part of the field name runs to the first
  \<^verbatim>\<open>.\<close> or \<^verbatim>\<open>[\<close>. Empty, it asks for the next positional argument; all digits, for
  the positional argument of that index; there is no positional argument. (An index of
  ten digits or more may not fit the platform's integers, which is another error: it is
  left to \<open>render\<close>.) Otherwise it is a key of \<open>subst\<close>, looked up before anything
  else is done with the field.\<close>

definition format_field ::
  "renderer \<Rightarrow> (string \<times> string) list \<Rightarrow> string \<Rightarrow> char option \<Rightarrow> string \<Rightarrow> py_error + string" where
  "format_field render subst field_name conversion spec =
     (let first = takeWhile (\<lambda>c. c \<noteq> CHR ''.'' \<and> c \<noteq> CHR ''['') field_name;
          rest = dropWhile (\<lambda>c. c \<noteq> CHR ''.'' \<and> c \<noteq> CHR ''['') field_name in
      if first = [] then Inl IndexError
      else if list_all is_digit first
      then (if length first \<le> 9 then Inl IndexError
            else render subst field_name conversion spec)
      else case map_of subst first of
             None \<Rightarrow> Inl KeyError
           | Some v \<Rightarrow>
               if rest = [] \<and> conversion = None \<and> spec = [] then Inr v
               else render subst field_name conversion spec)"

fun format_scan ::
  "renderer \<Rightarrow> (string \<times> string) list \<Rightarrow> scan_state \<Rightarrow> string \<Rightarrow> string \<Rightarrow> py_error + string" where
  "format_scan render subst Lit out [] = Inr out"
| "format_scan render subst st out [] = Inl ValueError"
| "format_scan render subst Lit out (c # cs) =
     (if c = CHR ''{'' then format_scan render subst Open_brace out cs
      else if c = CHR ''}'' then format_scan render subst Close_brace out cs
      else format_scan render subst Lit (out @ [c]) cs)"
| "format_scan render subst Close_brace out (c # cs) =
     (if c = CHR ''}'' then format_scan render subst Lit (out @ [c]) cs
      else Inl ValueError)"
| "format_scan render subst Open_brace out (c # cs) =
     (if c = CHR ''{'' then format_scan render subst Lit (out @ [c]) cs
      else if c = CHR ''['' then format_scan render subst (Field_bracket [c]) out cs
      else if c = CHR ''}'' then
        (case format_field render subst [] None [] of
           Inl e \<Rightarrow> Inl e
         | Inr v \<Rightarrow> format_scan render subst Lit (out @ v) cs)
      else if c = CHR '':'' then format_scan render subst (Format_spec [] None [] 1) out cs
      else if c = CHR ''!'' then format_scan render subst (Conversion []) out cs
      else format_scan render subst (Field_name [c]) out cs)"
| "format_scan render subst (Field_name name) out (c # cs) =
     (if c = CHR ''{'' then Inl ValueError
      else if c = CHR ''['' then format_scan render subst (Field_bracket (name @ [c])) out cs
      else if c = CHR ''}'' then
        (case format_field render subst name None [] of
           Inl e \<Rightarrow> Inl e
         | Inr v \<Rightarrow> format_scan render subst Lit (out @ v) cs)
      else if c = CHR '':'' then format_scan render subst (Format_spec name None [] 1) out cs
      else if c = CHR ''!'' then format_scan render subst (Conversion name) out cs
      else format_scan render subst (Field_name (name @ [c])) out cs)"
| "format_scan render subst (Field_bracket name) out (c # cs) =
     (if c = CHR '']'' then format_scan render subst (Field_name (name @ [c])) out cs
      else format_scan render subst (Field_bracket (name @ [c])) out cs)"
| "format_scan render subst (Conversion name) out (c # cs) =
     format_scan render subst (After_conversion name c) out cs"
| "format_scan render subst (After_conversion name conv) out (c # cs) =
     (if c = CHR ''}'' then
        (case format_field render subst name (Some conv) [] of
           Inl e \<Rightarrow> Inl e
         | Inr v \<Rightarrow> format_scan render subst Lit (out @ v) cs)
      else if c = CHR '':'' then format_scan render subst (Format_spec name (Some conv) [] 1) out cs
      else Inl ValueError)"
| "format_scan render subst (Format_spec name conv spec depth) out (c # cs) =
     (if c = CHR ''{'' then
        format_scan render subst (Format_spec name conv (spec @ [c]) (depth + 1)) out cs
      else if c = CHR ''}'' then
        (if depth = 1 then
           (case format_field render subst name conv spec of
              Inl e \<Rightarrow> Inl e
            | Inr v \<Rightarrow> format_scan render subst Lit (out @ v) cs)
         else format_scan render subst (Format_spec name conv (spec @ [c]) (depth - 1)) out cs)
      else format_scan render subst (Format_spec name conv (spec @ [c]) depth) out cs)"

definition py_format :: "renderer \<Rightarrow> string \<Rightarrow> (string \<times> string) list \<Rightarrow> py_error + string" where
  "py_format render format_string subst = format_scan render subst Lit [] format_string"

text \<open>
  \<^verbatim>\<open>NameMangler.transform(file_data)\<close>. \<open>format_string\<close> is the attribute of that
  name, \<^verbatim>\<open>None\<close> until \<^verbatim>\<open>new_format\<close> has run. \<open>strftime\<close> is
  \<^verbatim>\<open>datetime.strftime\<close>, which belongs to the platform. Only \<^verbatim>\<open>KeyError\<close> and
  \<^verbatim>\<open>ValueError\<close> are caught.
\<close>

definition transform ::
  "(datetime \<Rightarrow> string \<Rightarrow> py_error + string) \<Rightarrow> renderer \<Rightarrow> string option \<Rightarrow> file_info \<Rightarrow>
   py_error + string" where
  "transform strftime render format_string file_data =
     (let subst = make_subst file_data in
      case format_string of
        None \<Rightarrow> Inl AttributeError
      | Some fmt \<Rightarrow>
         (case py_format render fmt subst of
            Inl KeyError \<Rightarrow> strftime (fi_timestamp file_data) fmt
          | Inl ValueError \<Rightarrow> strftime (fi_timestamp file_data) fmt
          | Inl e \<Rightarrow> Inl e
          | Inr result \<Rightarrow> strftime (fi_timestamp file_data) result))"

subsection \<open>Storing a time stamp\<close>

text \<open>
  What the \<^verbatim>\<open>datetime\<close> constructor accepts: a date of the proleptic Gregorian
  calendar in the years 1 to 9999 and a time of day.
\<close>

definition days_in_month :: "nat \<Rightarrow> nat \<Rightarrow> nat" where
  "days_in_month y m =
     (if m = 2 then (if y mod 4 = 0 \<and> (y mod 100 \<noteq> 0 \<or> y mod 400 = 0) then 29 else 28)
      else if m = 4 \<or> m = 6 \<or> m = 9 \<or> m = 11 then 30 else 31)"

fun valid_datetime :: "datetime \<Rightarrow> bool" where
  "valid_datetime (y, m, d, hh, mm, ss, us) \<longleftrightarrow>
     1 \<le> y \<and> y \<le> 9999 \<and> 1 \<le> m \<and> m \<le> 12 \<and> 1 \<le> d \<and> d \<le> days_in_month y m \<and>
     hh < 24 \<and> mm < 60 \<and> ss < 60 \<and> us < 1000000"

definition digit_char :: "nat \<Rightarrow> char" where
  "digit_char n = ''0123456789'' ! n"

definition digit_value :: "char \<Rightarrow> nat" where
  "digit_value c =
     (if c = CHR ''1'' then 1 else if c = CHR ''2'' then 2 else if c = CHR ''3'' then 3
      else if c = CHR ''4'' then 4 else if c = CHR ''5'' then 5 else if c = CHR ''6'' then 6
      else if c = CHR ''7'' then 7 else if c = CHR ''8'' then 8 else if c = CHR ''9'' then 9
      else 0)"

text \<open>\<^verbatim>\<open>'%04d' % k\<close> and the like: \<open>k\<close> in decimal with \<open>n\<close> digits, for
  \<open>k < 10 ^ n\<close>, as every field of a valid \<^verbatim>\<open>datetime\<close> is.\<close>

fun zero_padded :: "nat \<Rightarrow> nat \<Rightarrow> string" where
  "zero_padded 0 k = []"
| "zero_padded (Suc n) k = zero_padded n (k div 10) @ [digit_char (k mod 10)]"

text \<open>The number written by a string of decimal digits, \<open>None\<close> when another character
  is among them.\<close>

definition parse_digits :: "string \<Rightarrow> nat option" where
  "parse_digits s =
     (if s \<noteq> [] \<and> list_all is_digit s
      then Some (foldl (\<lambda>n c. 10 * n + digit_value c) 0 s) else None)"

text \<open>\<^verbatim>\<open>timestamp.isoformat(' ')\<close> of a naive \<^verbatim>\<open>datetime\<close>: 19 characters, and seven
  more when the microseconds are not zero.\<close>

fun isoformat :: "datetime \<Rightarrow> string" where
  "isoformat (y, m, d, hh, mm, ss, us) =
     zero_padded 4 y @ ''-'' @ zero_padded 2 m @ ''-'' @ zero_padded 2 d @ '' '' @
     zero_padded 2 hh @ '':'' @ zero_padded 2 mm @ '':'' @ zero_padded 2 ss @
     (if us = 0 then [] else ''.'' @ zero_padded 6 us)"

text \<open>
  \<^verbatim>\<open>datetime.strptime(s, '%Y-%m-%d %H:%M:%S')\<close> and, with \<open>fraction\<close>,
  \<^verbatim>\<open>datetime.strptime(s, '%Y-%m-%d %H:%M:%S.%f')\<close>, on strings laid out as
  \<^verbatim>\<open>isoformat\<close> lays them out: four digits for the year, two for every other field,
  six for the microseconds. Anything else is a \<^verbatim>\<open>ValueError\<close> here. (The library
  also accepts a field with fewer digits; \<^verbatim>\<open>isoformat\<close> never writes one.)
\<close>

definition strptime :: "bool \<Rightarrow> string \<Rightarrow> py_error + datetime" where
  "strptime fraction s =
     (if length s \<noteq> (if fraction then 26 else 19) then Inl ValueError
      else if s ! 4 \<noteq> CHR ''-'' \<or> s ! 7 \<noteq> CHR ''-'' \<or> s ! 10 \<noteq> CHR '' '' \<or>
              s ! 13 \<noteq> CHR '':'' \<or> s ! 16 \<noteq> CHR '':'' \<or> (fraction \<and> s ! 19 \<noteq> CHR ''.'')
      then Inl ValueError
      else
        (case parse_digits (take 4 s) of None \<Rightarrow> Inl ValueError | Some y \<Rightarrow>
         case parse_digits (take 2 (drop 5 s)) of None \<Rightarrow> Inl ValueError | Some m \<Rightarrow>
         case parse_digits (take 2 (drop 8 s)) of None \<Rightarrow> Inl ValueError | Some d \<Rightarrow>
         case parse_digits (take 2 (drop 11 s)) of None \<Rightarrow> Inl ValueError | Some hh \<Rightarrow>
         case parse_digits (take 2 (drop 14 s)) of None \<Rightarrow> Inl ValueError | Some mm \<Rightarrow>
         case parse_digits (take 2 (drop 17 s)) of None \<Rightarrow> Inl ValueError | Some ss \<Rightarrow>
         case (if fraction then parse_digits (take 6 (drop 20 s)) else Some 0) of
           None \<Rightarrow> Inl ValueError
         | Some us \<Rightarrow>
             if valid_datetime (y, m, d, hh, mm, ss, us)
             then Inr (y, m, d, hh, mm, ss, us) else Inl ValueError))"

text \<open>The parsing in \<^verbatim>\<open>select_new\<close>: the format with \<^verbatim>\<open>%f\<close> for a string of more
  than 19 characters.\<close>

definition parse_since :: "string \<Rightarrow> py_error + datetime" where
  "parse_since since = (if length since > 19 then strptime True since else strptime False since)"

subsection \<open>Importer\<close>

text \<open>
  The import pane with what it reaches: the list widget, the source selector, the
  configuration store, the image list, and of the outside world the set of existing
  files and the log. \<open>events\<close> records, in order, each file the source has copied,
  each answer of \<^verbatim>\<open>abort_copy\<close>, each \<^verbatim>\<open>image_list.open_file\<close> call and each
  \<^verbatim>\<open>_fail\<close> call; \<open>polls\<close> counts the \<^verbatim>\<open>abort_copy\<close> calls.
\<close>

datatype source = FolderSource string | CameraSource string string

record widget_item =
  wi_name :: string
  wi_selectable :: bool
  wi_selected :: bool

datatype event = Copied file_info | Polled bool | Opened string | Failed

record importer =
  source :: "source option"
  config_section :: string
  nm_format_string :: "string option"
  file_data :: "(string \<times> file_info) list"
  file_list :: "string list"
  file_list_widget :: "widget_item list"
  selector_index :: nat
  import_in_progress :: bool
  copy_button_checked :: bool
  config_store :: "string \<times> string \<Rightarrow> string option"
  image_list :: image_list
  fs_files :: "string set"
  logged :: "string list"
  events :: "event list"
  polls :: nat

text \<open>
  What the importer asks of libraries, of the file system beyond the set of files, of the
  camera and of the user while one method runs: \<^verbatim>\<open>os.path.abspath\<close>,
  \<^verbatim>\<open>os.path.dirname\<close>, \<^verbatim>\<open>os.path.isdir\<close>, \<^verbatim>\<open>strftime\<close>, the field renderer
  of \<^verbatim>\<open>str.format\<close>, Python's order on strings, whether thumbnails and files are
  sorted by date, \<^verbatim>\<open>ImageList._date_key\<close>, the dict a folder walk builds, the error
  (if any) with which a camera session fails to open, the dict a camera listing builds
  (\<open>None\<close> for a \<^verbatim>\<open>GPhoto2Error\<close>), the text of the \<^verbatim>\<open>GPhoto2Error\<close> (if any)
  with which fetching a file from the camera fails, and what
  \<^verbatim>\<open>copy_button.isChecked()\<close> and \<^verbatim>\<open>isVisible()\<close> answer after the \<open>n\<close>-th
  \<^verbatim>\<open>processEvents()\<close>. Directories are fixed: those \<^verbatim>\<open>os.makedirs\<close> creates are
  not tracked. A library call that raises something else (a copy failing with an
  \<^verbatim>\<open>OSError\<close>) is not modelled.
\<close>

record environment =
  e_abspath :: "string \<Rightarrow> string"
  e_dirname :: "string \<Rightarrow> string"
  e_isdir :: "string \<Rightarrow> bool"
  e_strftime :: "datetime \<Rightarrow> string \<Rightarrow> py_error + string"
  e_render :: renderer
  e_str_le :: "string \<Rightarrow> string \<Rightarrow> bool"
  e_sort_date :: bool
  e_date_key :: "image \<Rightarrow> string"
  e_walk :: "string \<Rightarrow> (string \<times> file_info) list"
  e_camera_session :: "string \<Rightarrow> string \<Rightarrow> py_error option"
  e_camera_list :: "string \<Rightarrow> string \<Rightarrow> (string \<times> file_info) list option"
  e_camera_get :: "file_info \<Rightarrow> string option"
  e_poll :: "nat \<Rightarrow> bool \<times> bool"

text \<open>\<^verbatim>\<open>config_store.get(section, key, default)\<close> and \<^verbatim>\<open>config_store.set\<close>.\<close>

definition config_get ::
  "(string \<times> string \<Rightarrow> string option) \<Rightarrow> string \<Rightarrow> string \<Rightarrow> string \<Rightarrow> string" where
  "config_get store section key dflt =
     (case store (section, key) of None \<Rightarrow> dflt | Some v \<Rightarrow> v)"

definition config_set ::
  "string \<Rightarrow> string \<Rightarrow> string \<Rightarrow> (string \<times> string \<Rightarrow> string option) \<Rightarrow>
   (string \<times> string \<Rightarrow> string option)" where
  "config_set section key v store = store((section, key) := Some v)"

text \<open>\<^verbatim>\<open>d[key] = v\<close> for a key the dict has.\<close>

definition dict_set :: "string \<Rightarrow> 'v \<Rightarrow> (string \<times> 'v) list \<Rightarrow> (string \<times> 'v) list" where
  "dict_set key v d = map (\<lambda>(k, old). if k = key then (k, v) else (k, old)) d"

text \<open>\<^verbatim>\<open>list.sort\<close>: a stable sort, here by insertion, for the order \<open>le\<close>.\<close>

fun insort_by :: "('a \<Rightarrow> 'a \<Rightarrow> bool) \<Rightarrow> 'a \<Rightarrow> 'a list \<Rightarrow> 'a list" where
  "insort_by le x [] = [x]"
| "insort_by le x (y # ys) = (if le x y then x # y # ys else y # insort_by le x ys)"

definition sort_by :: "('a \<Rightarrow> 'a \<Rightarrow> bool) \<Rightarrow> 'a list \<Rightarrow> 'a list" where
  "sort_by le xs = foldr (insort_by le) xs []"

text \<open>\<^verbatim>\<open>os.path.exists\<close> and \<^verbatim>\<open>os.path.isfile\<close>.\<close>

definition path_exists :: "environment \<Rightarrow> importer \<Rightarrow> string \<Rightarrow> bool" where
  "path_exists env s p \<longleftrightarrow> p \<in> fs_files s \<or> e_isdir env p"

text \<open>The loop of \<^verbatim>\<open>show_file_list\<close>: each entry gets its \<^verbatim>\<open>dest_path\<close>, and its
  item is selectable when nothing exists at that path.\<close>

fun show_items ::
  "environment \<Rightarrow> importer \<Rightarrow> (string \<times> file_info) list \<Rightarrow> string list \<Rightarrow>
   py_error + ((string \<times> file_info) list \<times> widget_item list)" where
  "show_items env s fd [] = Inr (fd, [])"
| "show_items env s fd (name # names) =
     (case map_of fd name of
        None \<Rightarrow> Inl KeyError
      | Some info \<Rightarrow>
         (case transform (e_strftime env) (e_render env) (nm_format_string s) info of
            Inl e \<Rightarrow> Inl e
          | Inr dest_path \<Rightarrow>
             (case show_items env s (dict_set name (info\<lparr>fi_dest_path := dest_path\<rparr>) fd) names of
                Inl e \<Rightarrow> Inl e
              | Inr (fd', items) \<Rightarrow>
                  Inr (fd', \<lparr>wi_name = name, wi_selectable = \<not> path_exists env s dest_path,
                             wi_selected = False\<rparr> # items))))"

text \<open>\<^verbatim>\<open>Importer.show_file_list()\<close>\<close>

definition show_file_list :: "environment \<Rightarrow> importer \<Rightarrow> py_error + importer" where
  "show_file_list env s =
     (case show_items env s (file_data s) (file_list s) of
        Inl e \<Rightarrow> Inl e
      | Inr (fd, items) \<Rightarrow> Inr (s\<lparr>file_data := fd, file_list_widget := items\<rparr>))"

text \<open>\<^verbatim>\<open>Importer.sort_file_list()\<close>. The example handed to the name mangler only
  changes a label.\<close>

fun with_timestamps ::
  "(string \<times> file_info) list \<Rightarrow> string list \<Rightarrow> py_error + (string \<times> datetime) list" where
  "with_timestamps fd [] = Inr []"
| "with_timestamps fd (x # xs) =
     (case map_of fd x of
        None \<Rightarrow> Inl KeyError
      | Some info \<Rightarrow>
         (case with_timestamps fd xs of
            Inl e \<Rightarrow> Inl e
          | Inr keyed \<Rightarrow> Inr ((x, fi_timestamp info) # keyed)))"

definition sort_file_list :: "environment \<Rightarrow> importer \<Rightarrow> py_error + importer" where
  "sort_file_list env s =
     (if e_sort_date env then
        (case with_timestamps (file_data s) (file_list s) of
           Inl e \<Rightarrow> Inl e
         | Inr keyed \<Rightarrow>
             show_file_list env
               (s\<lparr>file_list := map fst (sort_by (\<lambda>a b. snd a \<le> snd b) keyed)\<rparr>))
      else show_file_list env (s\<lparr>file_list := sort_by (e_str_le env) (file_list s)\<rparr>))"

text \<open>\<^verbatim>\<open>Importer._new_file_list(file_data)\<close>\<close>

definition new_file_list ::
  "environment \<Rightarrow> (string \<times> file_info) list \<Rightarrow> importer \<Rightarrow> py_error + importer" where
  "new_file_list env fd s = sort_file_list env (s\<lparr>file_list := map fst fd, file_data := fd\<rparr>)"

text \<open>
  \<^verbatim>\<open>Importer._fail()\<close>. The first item of the selector is always
  \<^verbatim>\<open><select source>\<close>, whose data is the method \<^verbatim>\<open>_new_file_list\<close>. When the
  index changes, Qt calls the slot \<^verbatim>\<open>new_source(0)\<close>, which forgets the source and
  calls \<^verbatim>\<open>_new_file_list()\<close> with an empty dict; \<^verbatim>\<open>catch_all\<close> keeps an exception
  inside the slot. \<^verbatim>\<open>refresh()\<close> then finds the first item again and leaves the index
  at 0.
\<close>

definition fail :: "environment \<Rightarrow> importer \<Rightarrow> importer" where
  "fail env s =
     (let s = s\<lparr>events := events s @ [Failed]\<rparr> in
      if selector_index s = 0 then s
      else
        (let s = s\<lparr>selector_index := 0, source := None\<rparr> in
         case new_file_list env [] s of Inl e \<Rightarrow> s | Inr s' \<Rightarrow> s'))"

text \<open>\<^verbatim>\<open>get_file_data()\<close> of the two sources: \<open>None\<close> when the folder is gone or
  the camera no longer answers.\<close>

definition get_file_data ::
  "environment \<Rightarrow> source \<Rightarrow> py_error + (string \<times> file_info) list option" where
  "get_file_data env src =
     (case src of
        FolderSource folder \<Rightarrow>
          if \<not> e_isdir env folder then Inr None else Inr (Some (e_walk env folder))
      | CameraSource model port_name \<Rightarrow>
          (case e_camera_session env model port_name of
             Some e \<Rightarrow> Inl e
           | None \<Rightarrow> Inr (e_camera_list env model port_name)))"

text \<open>\<^verbatim>\<open>Importer.list_files()\<close>\<close>

definition list_files :: "environment \<Rightarrow> importer \<Rightarrow> py_error + importer" where
  "list_files env s =
     (case source s of
        None \<Rightarrow> new_file_list env [] s
      | Some src \<Rightarrow>
         (case get_file_data env src of
            Inl e \<Rightarrow> Inl e
          | Inr None \<Rightarrow> Inr (fail env s)
          | Inr (Some fd) \<Rightarrow> new_file_list env fd s))"

text \<open>The loop of \<^verbatim>\<open>select_files\<close> after \<^verbatim>\<open>clearSelection()\<close>.\<close>

fun select_rows ::
  "(string \<times> file_info) list \<Rightarrow> datetime \<Rightarrow> widget_item list \<Rightarrow> py_error + widget_item list" where
  "select_rows fd since [] = Inr []"
| "select_rows fd since (item # items) =
     (if \<not> wi_selectable item then
        (case select_rows fd since items of
           Inl e \<Rightarrow> Inl e
         | Inr items' \<Rightarrow> Inr (item\<lparr>wi_selected := False\<rparr> # items'))
      else
        (case map_of fd (wi_name item) of
           None \<Rightarrow> Inl KeyError
         | Some info \<Rightarrow>
            (case select_rows fd since items of
               Inl e \<Rightarrow> Inl e
             | Inr items' \<Rightarrow>
                 Inr (item\<lparr>wi_selected := (fi_timestamp info > since)\<rparr> # items'))))"

text \<open>\<^verbatim>\<open>Importer.select_files(since)\<close>, \<^verbatim>\<open>select_all()\<close> and \<^verbatim>\<open>select_new()\<close>.\<close>

definition select_files :: "datetime \<Rightarrow> importer \<Rightarrow> py_error + importer" where
  "select_files since s =
     (if file_list_widget s = [] then Inr s
      else case select_rows (file_data s) since (file_list_widget s) of
             Inl e \<Rightarrow> Inl e
           | Inr items \<Rightarrow> Inr (s\<lparr>file_list_widget := items\<rparr>))"

definition select_all :: "importer \<Rightarrow> py_error + importer" where
  "select_all s = select_files datetime_min s"

definition select_new :: "importer \<Rightarrow> py_error + importer" where
  "select_new s =
     (if source s \<noteq> None then
        (case parse_since (config_get (config_store s) (config_section s) ''last_transfer''
                            (isoformat datetime_min)) of
           Inl e \<Rightarrow> Inl e
         | Inr since \<Rightarrow> select_files since s)
      else select_files datetime_min s)"

text \<open>\<^verbatim>\<open>Importer.abort_copy()\<close>: let Qt handle events, then look at the button and
  the pane.\<close>

definition abort_copy :: "environment \<Rightarrow> importer \<Rightarrow> bool \<times> importer" where
  "abort_copy env s =
     (let (checked, visible) = e_poll env (polls s);
          abort = \<not> (checked \<and> visible) in
      (abort, s\<lparr>polls := polls s + 1, copy_button_checked := checked,
                events := events s @ [Polled abort]\<rparr>))"

text \<open>
  One step of the generator \<^verbatim>\<open>source.copy_files(copy_list)\<close>, up to its next
  \<^verbatim>\<open>yield\<close>: \<open>None\<close> for a file that cannot be read, else the entry, copied.
  \<^verbatim>\<open>copy_selected\<close> leaves its loop at a \<^verbatim>\<open>None\<close>, so the generator is never
  resumed after one. Only \<^verbatim>\<open>CameraSource\<close> logs.
\<close>

definition copy_file :: "environment \<Rightarrow> source \<Rightarrow> file_info \<Rightarrow> importer \<Rightarrow> file_info option \<times> importer" where
  "copy_file env src info s =
     (case src of
        FolderSource folder \<Rightarrow>
          if fi_path info \<notin> fs_files s then (None, s)
          else (Some info, s\<lparr>fs_files := insert (fi_dest_path info) (fs_files s),
                              events := events s @ [Copied info]\<rparr>)
      | CameraSource model port_name \<Rightarrow>
          (case e_camera_get env info of
             Some ex \<Rightarrow> (None, s\<lparr>logged := logged s @ [ex]\<rparr>)
           | None \<Rightarrow> (Some info, s\<lparr>fs_files := insert (fi_dest_path info) (fs_files s),
                                     events := events s @ [Copied info]\<rparr>)))"

text \<open>The loop \<^verbatim>\<open>for item in self.source.copy_files(copy_list)\<close> with the local
  \<^verbatim>\<open>last_item\<close>.\<close>

fun copy_loop ::
  "environment \<Rightarrow> source \<Rightarrow> file_info list \<Rightarrow> string option \<times> datetime \<Rightarrow> importer \<Rightarrow>
   (string option \<times> datetime) \<times> importer" where
  "copy_loop env src [] last_item s = (last_item, s)"
| "copy_loop env src (info # copy_list) last_item s =
     (case copy_file env src info s of
        (None, s1) \<Rightarrow> (last_item, fail env s1)
      | (Some item, s1) \<Rightarrow>
         (case abort_copy env s1 of
            (True, s2) \<Rightarrow> (last_item, s2)
          | (False, s2) \<Rightarrow>
             (let s3 = s2\<lparr>image_list :=
                          open_file (e_abspath env) (\<lambda>p. p \<in> fs_files s2) (image_list s2)
                            (fi_dest_path item),
                        events := events s2 @ [Opened (fi_dest_path item)]\<rparr> in
              case abort_copy env s3 of
                (True, s4) \<Rightarrow> (last_item, s4)
              | (False, s4) \<Rightarrow>
                  copy_loop env src copy_list
                    (if snd last_item < fi_timestamp item
                     then (Some (fi_dest_path item), fi_timestamp item) else last_item)
                    s4)))"

text \<open>\<^verbatim>\<open>ImageList._sort_thumbnails()\<close> and \<^verbatim>\<open>ImageList.done_opening(path)\<close>; the
  configuration store is the application's, which the importer shares.\<close>

definition sort_thumbnails :: "environment \<Rightarrow> image_list \<Rightarrow> image_list" where
  "sort_thumbnails env il =
     il\<lparr>images :=
        sort_by (\<lambda>a b. e_str_le env
                   (if e_sort_date env then e_date_key env (heap il a) else path (heap il a))
                   (if e_sort_date env then e_date_key env (heap il b) else path (heap il b)))
          (images il)\<rparr>"

definition done_opening :: "environment \<Rightarrow> string \<Rightarrow> importer \<Rightarrow> importer" where
  "done_opening env p s =
     s\<lparr>config_store :=
         config_set ''controls'' ''sort_date'' (if e_sort_date env then ''True'' else ''False'')
           (config_set ''paths'' ''images'' (e_dirname env p) (config_store s)),
       image_list := sort_thumbnails env (image_list s)\<rparr>"

text \<open>The list \<^verbatim>\<open>copy_list\<close>: the entries of the selected items.\<close>

fun selected_entries ::
  "(string \<times> file_info) list \<Rightarrow> widget_item list \<Rightarrow> py_error + file_info list" where
  "selected_entries fd [] = Inr []"
| "selected_entries fd (item # items) =
     (if wi_selected item then
        (case map_of fd (wi_name item) of
           None \<Rightarrow> Inl KeyError
         | Some info \<Rightarrow>
            (case selected_entries fd items of
               Inl e \<Rightarrow> Inl e
             | Inr infos \<Rightarrow> Inr (info # infos)))
      else selected_entries fd items)"

text \<open>
  \<^verbatim>\<open>Importer.copy_selected()\<close>. A camera session is opened when the generator
  starts, before the first file. \<^verbatim>\<open>last_item[0]\<close> is true for a non-empty path.
\<close>

definition copy_selected :: "environment \<Rightarrow> importer \<Rightarrow> py_error + importer" where
  "copy_selected env s =
     (if import_in_progress s then Inr (s\<lparr>copy_button_checked := False\<rparr>)
      else
        (let s = s\<lparr>import_in_progress := True\<rparr> in
         case selected_entries (file_data s) (file_list_widget s) of
           Inl e \<Rightarrow> Inl e
         | Inr copy_list \<Rightarrow>
            (case source s of
               None \<Rightarrow> Inl AttributeError
             | Some src \<Rightarrow>
                (case (case src of
                         FolderSource folder \<Rightarrow> None
                       | CameraSource model port_name \<Rightarrow> e_camera_session env model port_name) of
                   Some e \<Rightarrow> Inl e
                 | None \<Rightarrow>
                    (case copy_loop env src copy_list (None, datetime_min) s of
                       (last_item, s1) \<Rightarrow>
                         (let s2 =
                            (case fst last_item of
                               None \<Rightarrow> s1
                             | Some dest \<Rightarrow>
                                 if dest = [] then s1
                                 else done_opening env dest
                                   (s1\<lparr>config_store :=
                                       config_set (config_section s1) ''last_transfer''
                                         (isoformat (snd last_item)) (config_store s1)\<rparr>)) in
                          case show_file_list env s2 of
                            Inl e \<Rightarrow> Inl e
                          | Inr s3 \<Rightarrow>
                              Inr (s3\<lparr>copy_button_checked := False,
                                      import_in_progress := False\<rparr>)))))))"

subsection \<open>Reading the record of events\<close>

text \<open>The events of one full turn of the copy loop for the entry \<open>item\<close>: the file is
  copied, \<^verbatim>\<open>abort_copy\<close> says no, the copy is opened, \<^verbatim>\<open>abort_copy\<close> says no
  again.\<close>

definition full_turn :: "file_info \<Rightarrow> event list" where
  "full_turn item = [Copied item, Polled False, Opened (fi_dest_path item), Polled False]"

text \<open>The update of \<^verbatim>\<open>last_item\<close> at the end of a full turn.\<close>

definition update_last_item :: "string option \<times> datetime \<Rightarrow> file_info \<Rightarrow> string option \<times> datetime" where
  "update_last_item last_item item =
     (if snd last_item < fi_timestamp item
      then (Some (fi_dest_path item), fi_timestamp item) else last_item)"

text \<open>The answers of \<^verbatim>\<open>abort_copy\<close> among the events, and the destinations of the
  files copied.\<close>

fun polled :: "event list \<Rightarrow> bool list" where
  "polled [] = []"
| "polled (Polled a # es) = a # polled es"
| "polled (e # es) = polled es"

fun copied :: "event list \<Rightarrow> string list" where
  "copied [] = []"
| "copied (Copied item # es) = fi_dest_path item # copied es"
| "copied (e # es) = copied es"

text \<open>The events a method has added to those of the state it started from.\<close>

definition new_events :: "importer \<Rightarrow> importer \<Rightarrow> event list" where
  "new_events s s' = drop (length (events s)) (events s')"

text \<open>The statements of \<^verbatim>\<open>copy_selected\<close> between its loop and
  \<^verbatim>\<open>show_file_list()\<close>, as a function of \<^verbatim>\<open>last_item\<close>.\<close>

definition store_last_transfer :: "environment \<Rightarrow> string option \<times> datetime \<Rightarrow> importer \<Rightarrow> importer" where
  "store_last_transfer env last_item s1 =
     (case fst last_item of
        None \<Rightarrow> s1
      | Some dest \<Rightarrow>
          if dest = [] then s1
          else done_opening env dest
            (s1\<lparr>config_store :=
                config_set (config_section s1) ''last_transfer''
                  (isoformat (snd last_item)) (config_store s1)\<rparr>))"

subsection \<open>A small import\<close>

text \<open>
  Four pictures on a card, listed with the target format \<^verbatim>\<open>/p/{name}\<close>, the first
  two selected. The examples below run the importer on them, with the files in \<open>files\<close>
  present and the user's button and pane as \<open>poll\<close> says.
\<close>

definition picture_a :: file_info where
  "picture_a = \<lparr>fi_camera = None, fi_path = ''/card/a.jpg'', fi_name = ''a.jpg'',
     fi_timestamp = (2019, 5, 1, 10, 0, 0, 0), fi_dest_path = ''/p/a.jpg''\<rparr>"

definition picture_b :: file_info where
  "picture_b = \<lparr>fi_camera = None, fi_path = ''/card/b.jpg'', fi_name = ''b.jpg'',
     fi_timestamp = (2019, 5, 2, 11, 30, 0, 0), fi_dest_path = ''/p/b.jpg''\<rparr>"

definition picture_c :: file_info where
  "picture_c = \<lparr>fi_camera = None, fi_path = ''/card/c.jpg'', fi_name = ''c.jpg'',
     fi_timestamp = (2019, 5, 3, 9, 15, 0, 0), fi_dest_path = ''/p/c.jpg''\<rparr>"

definition picture_old :: file_info where
  "picture_old = \<lparr>fi_camera = None, fi_path = ''/card/old.jpg'', fi_name = ''old.jpg'',
     fi_timestamp = (2019, 4, 1, 8, 0, 0, 0), fi_dest_path = ''/p/old.jpg''\<rparr>"

definition small_environment :: "(nat \<Rightarrow> bool \<times> bool) \<Rightarrow> environment" where
  "small_environment poll =
     \<lparr>e_abspath = (\<lambda>p. p), e_dirname = (\<lambda>p. ''/p''), e_isdir = (\<lambda>p. False),
      e_strftime = (\<lambda>t f. Inr f), e_render = (\<lambda>subst name conv spec. Inl ValueError),
      e_str_le = (\<lambda>a b. True), e_sort_date = False, e_date_key = (\<lambda>i. []),
      e_walk = (\<lambda>folder. []), e_camera_session = (\<lambda>model port_name. None),
      e_camera_list = (\<lambda>model port_name. None), e_camera_get = (\<lambda>info. None),
      e_poll = poll\<rparr>"

definition small_import :: "string set \<Rightarrow> importer" where
  "small_import files =
     \<lparr>source = Some (FolderSource ''/card''), config_section = ''importer folder /card'',
      nm_format_string = Some ''/p/{name}'',
      file_data = [(''a.jpg'', picture_a), (''b.jpg'', picture_b), (''c.jpg'', picture_c),
                   (''old.jpg'', picture_old)],
      file_list = [''a.jpg'', ''b.jpg'', ''c.jpg'', ''old.jpg''],
      file_list_widget =
        [\<lparr>wi_name = ''a.jpg'', wi_selectable = True, wi_selected = True\<rparr>,
         \<lparr>wi_name = ''b.jpg'', wi_selectable = True, wi_selected = True\<rparr>,
         \<lparr>wi_name = ''c.jpg'', wi_selectable = True, wi_selected = False\<rparr>,
         \<lparr>wi_name = ''old.jpg'', wi_selectable = True, wi_selected = False\<rparr>],
      selector_index = 1, import_in_progress = False, copy_button_checked = True,
      config_store = (\<lambda>k. None), image_list = new_image_list, fs_files = files,
      logged = [], events = [], polls = 0\<rparr>"

text \<open>The entry \<open>name\<close> of the dict \<open>fd\<close> has the destination \<open>d\<close>, and \<open>d\<close> is
  what the name mangler makes of it.\<close>

definition listed :: "environment \<Rightarrow> importer \<Rightarrow> (string \<times> file_info) list \<Rightarrow> string \<Rightarrow> string \<Rightarrow> bool" where
  "listed env s fd name d \<longleftrightarrow>
     (\<exists>info. map_of fd name = Some info \<and> fi_dest_path info = d \<and>
        transform (e_strftime env) (e_render env) (nm_format_string s) info = Inr d)"

section \<open>Properties\<close>

subsection \<open>ThumbsLayout: the grid\<close>

lemma place_items_map: "place_items x y c sz n items =
   map (\<lambda>k. \<lparr>r_x = x + ((n + int k) mod c) * sz_w sz, r_y = y + ((n + int k) div c) * sz_h sz, r_size = sz\<rparr>) [0 ..< length items]"
proof (induction items arbitrary: n)
  case Nil
  then show ?case by simp
next
  case (Cons a items)
  have "[0..<length (a # items)] = 0 # map Suc [0..<length items]"
    by (simp add: upt_conv_Cons map_Suc_upt del: upt_Suc)
  then show ?case using Cons[of "n+1"]
    by (simp add: Let_def comp_def add.assoc del: upt_Suc)
qed

lemma ceil_div:
  fixes n c :: int
  assumes "0 < c"
  shows "(n + c - 1) div c = \<lceil>real_of_int n / real_of_int c\<rceil>"
proof -
  have split: "n = c * (n div c) + n mod c" by simp
  have r: "0 \<le> n mod c" "n mod c < c" using assms by simp_all
  have lhs: "(n + c - 1) div c = (if n mod c = 0 then n div c else n div c + 1)"
  proof (cases "n mod c = 0")
    case True
    have "n + c - 1 = c * (n div c) + (c - 1)" using split True by simp
    then have "(n + c - 1) div c = n div c"
      using assms by (intro int_div_pos_eq[where r = "c - 1"]) simp_all
    with True show ?thesis by simp
  next
    case False
    have "n + c - 1 = c * (n div c + 1) + (n mod c - 1)"
      using split by (simp add: algebra_simps)
    then have "(n + c - 1) div c = n div c + 1"
      using assms r False by (intro int_div_pos_eq[where r = "n mod c - 1"]) simp_all
    with False show ?thesis by simp
  qed
  have rhs: "\<lceil>real_of_int n / real_of_int c\<rceil> = - (- n div c)"
    by (rule ceiling_divide_eq_div)
  have "- n div c = (if n mod c = 0 then - (n div c) else - (n div c) - 1)"
    using assms by (simp add: zdiv_zminus1_eq_if)
  with lhs rhs show ?thesis by simp
qed

text \<open>
  C4. For a non-empty item list whose cells have a non-zero width, \<^verbatim>\<open>_do_layout\<close>
  returns normally. With \<open>N\<close> cells it is in multi-row mode exactly when the viewport
  height minus the vertical margins exceeds the cell height; then the column count is
  \<open>C = max ((viewport width - horizontal margins) div cell width) 1\<close> and there are
  \<open>\<lceil>N / C\<rceil>\<close> rows; otherwise there is one row and \<open>C = N\<close>. Cell \<open>n\<close> is placed
  at column \<open>n mod C\<close> and row \<open>n div C\<close>, and the size hint is \<open>C\<close> cell widths by
  (number of rows) cell heights, plus the margins.
\<close>

theorem do_layout_grid:
  assumes "item_list \<noteq> []" and "sz_w (hd item_list) \<noteq> 0"
  shows "do_layout cm vp item_list origin =
     (let N = int (length item_list);
          item_w = sz_w (hd item_list);
          item_h = sz_h (hd item_list);
          multi_row = (sz_h vp - (m_top cm + m_bottom cm) > item_h);
          C = (if multi_row then max ((sz_w vp - (m_left cm + m_right cm)) div item_w) 1 else N);
          R = (if multi_row then \<lceil>real_of_int N / real_of_int C\<rceil> else 1)
      in Inr \<lparr>size_hint = \<lparr>sz_w = m_left cm + m_right cm + C * item_w,
                             sz_h = m_top cm + m_bottom cm + R * item_h\<rparr>,
              geometries =
                map (\<lambda>n. \<lparr>r_x = fst origin + m_left cm + (int n mod C) * item_w,
                           r_y = snd origin + m_top cm + (int n div C) * item_h,
                           r_size = hd item_list\<rparr>) [0 ..< length item_list],
              set_multi_row = Some multi_row\<rparr>)"
proof -
  obtain item_size rest where il: "item_list = item_size # rest"
    using assms(1) by (cases item_list) auto
  have w: "sz_w item_size \<noteq> 0" using assms(2) il by simp
  let ?q = "max ((sz_w vp - (m_left cm + m_right cm)) div sz_w item_size) 1"
  have "0 < ?q" by simp
  then have c: "(int (length item_list) + ?q - 1) div ?q =
      \<lceil>real_of_int (int (length item_list)) / real_of_int ?q\<rceil>"
    by (rule ceil_div)
  show ?thesis
    using w c unfolding il do_layout_def py_floordiv_def place_items_map Let_def
    by (simp del: upt_Suc place_items.simps)
qed

text \<open>Four cells of 30 by 20 in a 100 by 100 viewport: three columns, two rows.\<close>

theorem do_layout_grid_witness:
  "do_layout \<lparr>m_left = 1, m_top = 2, m_right = 3, m_bottom = 4\<rparr> \<lparr>sz_w = 100, sz_h = 100\<rparr>
     [\<lparr>sz_w = 30, sz_h = 20\<rparr>, \<lparr>sz_w = 30, sz_h = 20\<rparr>, \<lparr>sz_w = 30, sz_h = 20\<rparr>,
      \<lparr>sz_w = 30, sz_h = 20\<rparr>] (0, 0) =
   Inr \<lparr>size_hint = \<lparr>sz_w = 94, sz_h = 46\<rparr>,
        geometries =
          [\<lparr>r_x = 1, r_y = 2, r_size = \<lparr>sz_w = 30, sz_h = 20\<rparr>\<rparr>,
           \<lparr>r_x = 31, r_y = 2, r_size = \<lparr>sz_w = 30, sz_h = 20\<rparr>\<rparr>,
           \<lparr>r_x = 61, r_y = 2, r_size = \<lparr>sz_w = 30, sz_h = 20\<rparr>\<rparr>,
           \<lparr>r_x = 1, r_y = 22, r_size = \<lparr>sz_w = 30, sz_h = 20\<rparr>\<rparr>],
        set_multi_row = Some True\<rparr>"
proof -
  let ?items = "[\<lparr>sz_w = 30, sz_h = 20\<rparr>, \<lparr>sz_w = 30, sz_h = 20\<rparr>, \<lparr>sz_w = 30, sz_h = 20\<rparr>,
      \<lparr>sz_w = 30::int, sz_h = 20::int\<rparr>]"
  have h1: "?items \<noteq> []" by simp
  have h2: "sz_w (hd ?items) \<noteq> 0" by simp
  have u: "[0..<4] = [0, 1, 2, 3]" by (simp add: upt_rec)
  show ?thesis
    using do_layout_grid [OF h1 h2, of "\<lparr>m_left = 1, m_top = 2, m_right = 3, m_bottom = 4\<rparr>"
        "\<lparr>sz_w = 100, sz_h = 100\<rparr>" "(0, 0)"]
    by (simp add: Let_def u)
qed

subsection \<open>ImageList: opening files\<close>

lemma get_image_in_None: "get_image_in h ims p = None \<longleftrightarrow> p \<notin> set (map (\<lambda>r. path (h r)) ims)"
  by (induction ims) auto

lemma get_image_None: "get_image s p = None \<longleftrightarrow> p \<notin> set (image_paths s)"
  by (simp add: get_image_def image_paths_def get_image_in_None)


lemma open_file_refs_allocated:
  "refs_allocated s \<Longrightarrow> refs_allocated (open_file abspath isfile s p)"
  by (auto simp: refs_allocated_def open_file_def Let_def less_Suc_eq)

lemma open_file_distinct_refs:
  "refs_allocated s \<Longrightarrow> distinct (images s) \<Longrightarrow> distinct (images (open_file abspath isfile s p))"
  by (auto simp: refs_allocated_def open_file_def Let_def)

lemma open_file_distinct_paths:
  assumes "refs_allocated s" and "distinct (image_paths s)"
  shows "distinct (image_paths (open_file abspath isfile s p))"
proof (cases "isfile (abspath p) \<and> get_image s (abspath p) = None")
  case False
  then show ?thesis using assms(2) by (auto simp: open_file_def Let_def)
next
  case True
  then have new: "abspath p \<notin> set (image_paths s)" by (simp add: get_image_None)
  have "image_paths (open_file abspath isfile s p) = image_paths s @ [abspath p]"
    using True assms(1) by (auto simp: open_file_def Let_def image_paths_def refs_allocated_def)
  then show ?thesis using new assms(2) by simp
qed

lemma open_file_unchanged:
  "\<not> isfile (abspath p) \<or> abspath p \<in> set (image_paths s) \<Longrightarrow> open_file abspath isfile s p = s"
  using get_image_None [of s "abspath p"] by (auto simp: open_file_def Let_def)

lemma open_file_calls_invariant:
  "refs_allocated s \<Longrightarrow> distinct (images s) \<Longrightarrow> distinct (image_paths s) \<Longrightarrow>
   refs_allocated (open_file_calls abspath s calls) \<and>
   distinct (images (open_file_calls abspath s calls)) \<and>
   distinct (image_paths (open_file_calls abspath s calls))"
proof (induction calls arbitrary: s)
  case Nil
  then show ?case by simp
next
  case (Cons c calls)
  obtain isfile p where c: "c = (isfile, p)" by (cases c)
  show ?case
    unfolding c open_file_calls.simps
    by (intro Cons.IH open_file_refs_allocated open_file_distinct_refs open_file_distinct_paths
        Cons.prems)
qed

lemma new_image_list_invariant:
  "refs_allocated new_image_list" "distinct (images new_image_list)"
  "distinct (image_paths new_image_list)"
  by (simp_all add: refs_allocated_def new_image_list_def image_paths_def)

text \<open>
  C3. After any sequence of \<^verbatim>\<open>open_file\<close> calls on a new image list, whatever the
  file system says at each call, no two images of the list have the same path; and a call
  whose absolute path is not an existing file, or is the path of an image already in the
  list, returns the state it was given.
\<close>

theorem open_file_unique_paths:
  "distinct (image_paths (open_file_calls abspath new_image_list calls)) \<and>
   (\<not> isfile (abspath p) \<or> abspath p \<in> set (image_paths s) \<longrightarrow>
      open_file abspath isfile s p = s)"
  using open_file_calls_invariant [OF new_image_list_invariant, of abspath calls]
    open_file_unchanged [of isfile abspath p s]
  by blast

text \<open>Opening \<^verbatim>\<open>a.jpg\<close> a second time changes nothing.\<close>

theorem open_file_unique_paths_witness:
  "distinct (image_paths (open_file_calls id new_image_list
       [(\<lambda>_. True, ''a.jpg''), (\<lambda>_. True, ''b.jpg''), (\<lambda>_. True, ''a.jpg'')])) \<and>
   ''a.jpg'' \<in> set (image_paths (open_file id (\<lambda>_. True) new_image_list ''a.jpg'')) \<and>
   open_file id (\<lambda>_. True) (open_file id (\<lambda>_. True) new_image_list ''a.jpg'') ''a.jpg'' =
     open_file id (\<lambda>_. True) new_image_list ''a.jpg''"
proof -
  have h: "''a.jpg'' \<in> set (image_paths (open_file id (\<lambda>_. True) new_image_list ''a.jpg''))"
    by (simp add: open_file_def get_image_def new_image_list_def image_paths_def)
  show ?thesis
    using h open_file_unique_paths [of id "[(\<lambda>_. True, ''a.jpg''), (\<lambda>_. True, ''b.jpg''), (\<lambda>_. True, ''a.jpg'')]"
        "\<lambda>_. True" "''a.jpg''" "open_file id (\<lambda>_. True) new_image_list ''a.jpg''"]
    by simp
qed

subsection \<open>ImageList: extending the selection\<close>

lemma list_index_Some: "list_index xs x = Some i \<Longrightarrow> i < length xs \<and> xs ! i = x"
  by (induction xs arbitrary: i) (auto split: if_splits)

lemma set_selected_fields [simp]:
  "images (set_selected r v s) = images s"
  "selection_anchor (set_selected r v s) = selection_anchor s"
  "last_selected (set_selected r v s) = last_selected s"
  "next_ref (set_selected r v s) = next_ref s"
  by (simp_all add: set_selected_def)

lemma fold_set_selected:
  "images (fold (\<lambda>i s. set_selected (images s ! i) v s) js s) = images s \<and>
   selection_anchor (fold (\<lambda>i s. set_selected (images s ! i) v s) js s) = selection_anchor s \<and>
   last_selected (fold (\<lambda>i s. set_selected (images s ! i) v s) js s) = last_selected s \<and>
   (\<forall>r. get_selected (fold (\<lambda>i s. set_selected (images s ! i) v s) js s) r =
        (if r \<in> (\<lambda>i. images s ! i) ` set js then v else get_selected s r))"
proof (induction js arbitrary: s)
  case Nil
  then show ?case by simp
next
  case (Cons j js)
  have "get_selected (set_selected (images s ! j) v s) r =
      (if r = images s ! j then v else get_selected s r)" for r
    by (simp add: get_selected_def set_selected_def)
  with Cons [of "set_selected (images s ! j) v s"] show ?case by auto
qed

lemma set_selected_range_fields [simp]:
  "images (set_selected_range a b v s) = images s"
  "selection_anchor (set_selected_range a b v s) = selection_anchor s"
  "last_selected (set_selected_range a b v s) = last_selected s"
  using fold_set_selected [of v "[min a b ..< max a b + 1]" s]
  by (simp_all add: set_selected_range_def)

lemma set_selected_range_selected:
  assumes "distinct (images s)" and "a < length (images s)" and "b < length (images s)"
    and "i < length (images s)"
  shows "get_selected (set_selected_range a b v s) (images s ! i) =
    (if min a b \<le> i \<and> i \<le> max a b then v else get_selected s (images s ! i))"
proof -
  have "images s ! i \<in> (\<lambda>k. images s ! k) ` set [min a b ..< max a b + 1] \<longleftrightarrow>
      min a b \<le> i \<and> i \<le> max a b"
  proof
    assume "images s ! i \<in> (\<lambda>k. images s ! k) ` set [min a b ..< max a b + 1]"
    then obtain k where k: "min a b \<le> k" "k \<le> max a b" "images s ! i = images s ! k"
      by auto
    from k(2) assms(2,3) have "k < length (images s)" by (auto simp: max_def split: if_splits)
    with k(3) assms(1,4) have "i = k" by (simp add: nth_eq_iff_index_eq)
    with k show "min a b \<le> i \<and> i \<le> max a b" by simp
  next
    assume "min a b \<le> i \<and> i \<le> max a b"
    then have "i \<in> set [min a b ..< max a b + 1]" by auto
    then show "images s ! i \<in> (\<lambda>k. images s ! k) ` set [min a b ..< max a b + 1]"
      by (rule imageI)
  qed
  with fold_set_selected [of v "[min a b ..< max a b + 1]" s]
  show ?thesis by (simp add: set_selected_range_def)
qed

text \<open>
  C10. Let the images selected be exactly those between the anchor and the last selected
  image, in a list without repeated widgets. Then \<^verbatim>\<open>select_image\<close> with
  \<^verbatim>\<open>extend_selection=True\<close> on an image of the list returns normally; after its
  first loop nothing is selected; at the end the images selected are exactly those at the
  indices between the anchor and the given image, inclusive; the list and the anchor are
  as before, and \<^verbatim>\<open>last_selected\<close> is the given image.
\<close>

theorem select_image_extend:
  assumes "distinct (images s)"
    and "selection_anchor s = Some a" and "list_index (images s) a = Some ia"
    and "last_selected s = Some l" and "list_index (images s) l = Some il"
    and "list_index (images s) img = Some ir"
    and "\<forall>i < length (images s).
           get_selected s (images s ! i) \<longleftrightarrow> (min ia il \<le> i \<and> i \<le> max ia il)"
  shows "\<exists>s1 s'.
       s1 = set_selected_range ia il False s \<and>
       (\<forall>i < length (images s). \<not> get_selected s1 (images s ! i)) \<and>
       select_image img True multiple_selection s = Inr s' \<and>
       s' = (set_selected_range ia ir True s1)\<lparr>last_selected := Some img\<rparr> \<and>
       images s' = images s \<and>
       selection_anchor s' = Some a \<and>
       last_selected s' = Some img \<and>
       (\<forall>i < length (images s).
           get_selected s' (images s ! i) \<longleftrightarrow> (min ia ir \<le> i \<and> i \<le> max ia ir))"
proof -
  let ?s1 = "set_selected_range ia il False s"
  let ?s' = "(set_selected_range ia ir True ?s1)\<lparr>last_selected := Some img\<rparr>"
  have ia: "ia < length (images s)" and il: "il < length (images s)"
    and ir: "ir < length (images s)"
    using assms(3,5,6) by (auto dest: list_index_Some)
  have off: "\<not> get_selected ?s1 (images s ! i)" if "i < length (images s)" for i
    using set_selected_range_selected [OF assms(1) ia il that, of False] assms(7) that
    by auto
  have run: "select_image img True multiple_selection s = Inr ?s'"
    using assms(2-6) by (simp add: select_image_def Let_def)
  have d1: "distinct (images ?s1)" using assms(1) by simp
  have on: "get_selected ?s' (images s ! i) \<longleftrightarrow> (min ia ir \<le> i \<and> i \<le> max ia ir)"
    if "i < length (images s)" for i
  proof -
    have "get_selected ?s' (images s ! i) =
        get_selected (set_selected_range ia ir True ?s1) (images ?s1 ! i)"
      by (simp add: get_selected_def)
    also have "\<dots> = (if min ia ir \<le> i \<and> i \<le> max ia ir then True
        else get_selected ?s1 (images ?s1 ! i))"
      using ia ir that by (intro set_selected_range_selected [OF d1]) simp_all
    finally show ?thesis using off [OF that] by simp
  qed
  show ?thesis
    using off run on assms(2) by simp
qed

text \<open>Three images, the second and third selected from the second; shift-click on the
  first.\<close>

theorem select_image_extend_witness:
  "\<exists>s'. select_image 0 True False
           \<lparr>images = [0, 1, 2],
            heap = (\<lambda>r. \<lparr>path = ''p'', selected = (r = 1 \<or> r = 2), md_changed = False\<rparr>),
            next_ref = 3, last_selected = Some 2, selection_anchor = Some 1\<rparr> = Inr s' \<and>
        images s' = [0, 1, 2] \<and> selection_anchor s' = Some 1 \<and> last_selected s' = Some 0 \<and>
        get_selected s' 0 \<and> get_selected s' 1 \<and> \<not> get_selected s' 2"
proof -
  let ?s = "\<lparr>images = [0, 1, 2],
            heap = (\<lambda>r. \<lparr>path = ''p'', selected = (r = 1 \<or> r = 2), md_changed = False\<rparr>),
            next_ref = 3, last_selected = Some 2, selection_anchor = Some (1::nat)\<rparr>"
  have h1: "distinct (images ?s)" by simp
  have h2: "selection_anchor ?s = Some 1" by simp
  have h3: "list_index (images ?s) 1 = Some 1" by simp
  have h4: "last_selected ?s = Some 2" by simp
  have h5: "list_index (images ?s) 2 = Some 2" by (simp add: numeral_2_eq_2)
  have h6: "list_index (images ?s) 0 = Some 0" by simp
  have h7: "\<forall>i < length (images ?s).
           get_selected ?s (images ?s ! i) \<longleftrightarrow> (min 1 2 \<le> i \<and> i \<le> max 1 2)"
    by (simp add: All_less_Suc get_selected_def numeral_2_eq_2)
  show ?thesis
    using select_image_extend [OF h1 h2 h3 h4 h5 h6 h7, of False]
    by (simp add: All_less_Suc numeral_2_eq_2)
qed

subsection \<open>ImageList: closing files\<close>

lemma unsaved_files_dialog_cases:
  "unsaved_files_dialog save answer all_files s =
     (if \<not> unsaved_affected all_files s then (True, s, False)
      else if answer = Save then (True, save_files save s, True)
      else if answer = Discard then (True, s, True)
      else (False, s, True))"
  by (cases answer) (simp_all add: unsaved_files_dialog_def)

lemma close_files_shown:
  "close_files save answer all_files s = Inr (s', shown) \<Longrightarrow>
   shown = unsaved_affected all_files s"
  by (auto simp: close_files_def unsaved_files_dialog_cases Let_def
      split: if_splits list.splits option.splits sum.splits)

lemma close_files_cancel:
  "unsaved_affected all_files s \<Longrightarrow> close_files save Cancel all_files s = Inr (s, True)"
  by (simp add: close_files_def unsaved_files_dialog_cases)

text \<open>
  C7. \<^verbatim>\<open>close_files\<close> shows the message box exactly when an image affected by the
  close (every image, or the selected ones) has unsaved metadata. If it is shown and the
  user cancels, \<^verbatim>\<open>close_files\<close> returns the state it was given. So whenever the
  list of images has changed, either nothing affected was unsaved or the answer was Save
  or Discard.
\<close>

theorem close_files_guarded:
  "(unsaved_affected all_files s \<and> answer = Cancel \<longrightarrow>
      close_files save answer all_files s = Inr (s, True)) \<and>
   (\<forall>s' shown. close_files save answer all_files s = Inr (s', shown) \<longrightarrow>
      shown = unsaved_affected all_files s \<and>
      (images s' \<noteq> images s \<longrightarrow>
         \<not> unsaved_affected all_files s \<or> answer = Save \<or> answer = Discard))"
proof (intro conjI allI impI)
  assume "unsaved_affected all_files s \<and> answer = Cancel"
  then show "close_files save answer all_files s = Inr (s, True)"
    by (simp add: close_files_cancel)
next
  fix s' shown
  assume r: "close_files save answer all_files s = Inr (s', shown)"
  then show "shown = unsaved_affected all_files s" by (rule close_files_shown)
  assume changed: "images s' \<noteq> images s"
  show "\<not> unsaved_affected all_files s \<or> answer = Save \<or> answer = Discard"
  proof (rule ccontr)
    assume "\<not> (\<not> unsaved_affected all_files s \<or> answer = Save \<or> answer = Discard)"
    then have u: "unsaved_affected all_files s" and "answer = Cancel"
      by (cases answer; simp)+
    with r close_files_cancel [OF u, of save] have "s' = s" by simp
    with changed show False by simp
  qed
qed

text \<open>Two images, the first selected and unsaved. Cancelling leaves both; discarding
  closes the first and selects the one that takes its place.\<close>

theorem close_files_guarded_witness:
  "close_files id Cancel False
     \<lparr>images = [0, 1],
      heap = (\<lambda>r. \<lparr>path = ''p'', selected = (r = 0), md_changed = (r = 0)\<rparr>),
      next_ref = 2, last_selected = Some 0, selection_anchor = Some 0\<rparr> =
   Inr (\<lparr>images = [0, 1],
         heap = (\<lambda>r. \<lparr>path = ''p'', selected = (r = 0), md_changed = (r = 0)\<rparr>),
         next_ref = 2, last_selected = Some 0, selection_anchor = Some 0\<rparr>, True) \<and>
   (\<exists>s'. close_files id Discard False
     \<lparr>images = [0, 1],
      heap = (\<lambda>r. \<lparr>path = ''p'', selected = (r = 0), md_changed = (r = 0)\<rparr>),
      next_ref = 2, last_selected = Some 0, selection_anchor = Some 0\<rparr> = Inr (s', True) \<and>
      images s' = [1])"
proof -
  let ?s = "\<lparr>images = [0, 1::nat],
      heap = (\<lambda>r. \<lparr>path = ''p'', selected = (r = 0), md_changed = (r = 0)\<rparr>),
      next_ref = 2, last_selected = Some 0, selection_anchor = Some 0\<rparr>"
  have u: "unsaved_affected False ?s" by (simp add: unsaved_affected_def)
  have d: "\<exists>s' shown. close_files id Discard False ?s = Inr (s', shown) \<and> images s' = [1]"
    using u
    by (auto simp: close_files_def unsaved_files_dialog_def get_selected_images_def
        get_selected_def list_remove_def select_image_def Let_def set_selected_def
        clear_selection_def)
  then obtain s' shown where
    s': "close_files id Discard False ?s = Inr (s', shown)" "images s' = [1]"
    by blast
  from close_files_guarded [of False ?s Discard id] s'(1) u have "shown = True" by blast
  with s' have "\<exists>s'. close_files id Discard False ?s = Inr (s', True) \<and> images s' = [1]"
    by blast
  moreover from close_files_guarded [of False ?s Cancel id] u
  have "close_files id Cancel False ?s = Inr (?s, True)" by blast
  ultimately show ?thesis by blast
qed

subsection \<open>Image.regenerate_thumbnail\<close>

lemma round_div_floor:
  "0 \<le> a \<Longrightarrow> 0 < b \<Longrightarrow> round_div a b = \<lfloor>real_of_int a / real_of_int b + 1/2\<rfloor>"
  by (simp add: round_div_def py_int_def add.commute)

lemma pad_picture_cases:
  assumes "0 \<le> im_w q" and "0 \<le> im_h q"
  shows "pad_picture q =
    (let w = im_w q; h = im_h q;
         rnd = (\<lambda>x :: real. \<lfloor>x + 1/2\<rfloor>) in
     if w \<ge> h then
       (if rnd (real_of_int (3 * w) / 4) > h
        then q\<lparr>im_h := rnd (real_of_int (3 * w) / 4),
               pic_y := pic_y q + (rnd (real_of_int (3 * w) / 4) - h) div 2\<rparr>
        else if rnd (real_of_int (4 * h) / 3) > w
        then q\<lparr>im_w := rnd (real_of_int (4 * h) / 3),
               pic_x := pic_x q + (rnd (real_of_int (4 * h) / 3) - w) div 2\<rparr>
        else q,
        160, 120)
     else
       (if rnd (real_of_int (3 * h) / 4) > w
        then q\<lparr>im_w := rnd (real_of_int (3 * h) / 4),
               pic_x := pic_x q + (rnd (real_of_int (3 * h) / 4) - w) div 2\<rparr>
        else if rnd (real_of_int (4 * w) / 3) > h
        then q\<lparr>im_h := rnd (real_of_int (4 * w) / 3),
               pic_y := pic_y q + (rnd (real_of_int (4 * w) / 3) - h) div 2\<rparr>
        else q,
        120, 160))"
proof -
  have r: "round_div (im_w q * 3) 4 = \<lfloor>real_of_int (3 * im_w q) / 4 + 1/2\<rfloor>"
    "round_div (im_h q * 4) 3 = \<lfloor>real_of_int (4 * im_h q) / 3 + 1/2\<rfloor>"
    "round_div (im_w q * 4) 3 = \<lfloor>real_of_int (4 * im_w q) / 3 + 1/2\<rfloor>"
    "round_div (im_h q * 3) 4 = \<lfloor>real_of_int (3 * im_h q) / 4 + 1/2\<rfloor>"
    using assms by (simp_all add: round_div_floor mult.commute)
  show ?thesis
    unfolding pad_picture_def r Let_def qcopy_def
    by (cases q) simp
qed

text \<open>
  C5, amended. Let the image be read, and let \<open>w\<close> and \<open>h\<close> be its width and height
  after the orientation correction and the pre-shrink. With \<open>rnd x = \<lfloor>x + 1/2\<rfloor>\<close>:
  if \<open>w \<ge> h\<close>, rows are added up to height \<open>rnd (3w/4)\<close> when that exceeds \<open>h\<close>,
  otherwise columns up to width \<open>rnd (4h/3)\<close> when that exceeds \<open>w\<close>, and the thumbnail is
  160 by 120; if \<open>h > w\<close>, columns are added up to width \<open>rnd (3h/4)\<close> when that exceeds
  \<open>w\<close>, otherwise rows up to height \<open>rnd (4w/3)\<close> when that exceeds \<open>h\<close>, and the
  thumbnail is 120 by 160. The picture is centred: half of the added rows or columns,
  rounded down, come before it.
\<close>

theorem regenerate_thumbnail_padding:
  assumes "read_image lib self = Some qt_im"
    and "q = pre_shrink lib qt_im"
    and "0 \<le> im_w q" and "0 \<le> im_h q"
  shows "md_thumbnail (fst (regenerate_thumbnail lib self)) =
    (let w = im_w q; h = im_h q;
         rnd = (\<lambda>x :: real. \<lfloor>x + 1/2\<rfloor>);
         padded =
           (if w \<ge> h then
              (if rnd (real_of_int (3 * w) / 4) > h
               then q\<lparr>im_h := rnd (real_of_int (3 * w) / 4),
                      pic_y := pic_y q + (rnd (real_of_int (3 * w) / 4) - h) div 2\<rparr>
               else if rnd (real_of_int (4 * h) / 3) > w
               then q\<lparr>im_w := rnd (real_of_int (4 * h) / 3),
                      pic_x := pic_x q + (rnd (real_of_int (4 * h) / 3) - w) div 2\<rparr>
               else q)
            else
              (if rnd (real_of_int (3 * h) / 4) > w
               then q\<lparr>im_w := rnd (real_of_int (3 * h) / 4),
                      pic_x := pic_x q + (rnd (real_of_int (3 * h) / 4) - w) div 2\<rparr>
               else if rnd (real_of_int (4 * w) / 3) > h
               then q\<lparr>im_h := rnd (real_of_int (4 * w) / 3),
                      pic_y := pic_y q + (rnd (real_of_int (4 * w) / 3) - h) div 2\<rparr>
               else q))
     in Some \<lparr>th_source = padded,
              th_scaler = (if pil lib then PIL_resize else Qt_scaled),
              th_fmt = ''JPEG'',
              th_w = (if w \<ge> h then 160 else 120),
              th_h = (if w \<ge> h then 120 else 160)\<rparr>)"
proof -
  have "regenerate_thumbnail lib self =
      (case pad_picture q of
         (padded, w, h) \<Rightarrow>
           (self\<lparr>md_thumbnail :=
               Some \<lparr>th_source = padded,
                     th_scaler = (if pil lib then PIL_resize else Qt_scaled),
                     th_fmt = ''JPEG'', th_w = w, th_h = h\<rparr>\<rparr>,
            []))"
    using assms(1,2) by (simp add: regenerate_thumbnail_def)
  then show ?thesis
    unfolding pad_picture_cases [OF assms(3,4)] by (simp add: Let_def)
qed

text \<open>A 4000 by 2000 picture gets 500 rows above and 500 below.\<close>

theorem regenerate_thumbnail_padding_witness:
  "md_thumbnail (fst (regenerate_thumbnail
      \<lparr>cv2 = False, pil = True, qt_read = \<lparr>im_w = 4000, im_h = 2000, pic_x = 0, pic_y = 0\<rparr>,
       cv_read = NotOpened, scaled_6000 = id\<rparr>
      \<lparr>file_path = ''a.jpg'', file_type = ''image/jpeg'', md_orientation = None,
       md_thumbnail = None\<rparr>)) =
   Some \<lparr>th_source = \<lparr>im_w = 4000, im_h = 3000, pic_x = 0, pic_y = 500\<rparr>,
         th_scaler = PIL_resize, th_fmt = ''JPEG'', th_w = 160, th_h = 120\<rparr>"
proof -
  let ?q = "\<lparr>im_w = 4000, im_h = 2000, pic_x = 0, pic_y = 0\<rparr>"
  let ?lib = "\<lparr>cv2 = False, pil = True, qt_read = ?q, cv_read = NotOpened, scaled_6000 = id\<rparr>"
  let ?self = "\<lparr>file_path = ''a.jpg'', file_type = ''image/jpeg'', md_orientation = None,
       md_thumbnail = None\<rparr>"
  have h1: "read_image ?lib ?self = Some ?q"
    by (simp add: read_image_def starts_with_def is_null_def)
  have h2: "?q = pre_shrink ?lib ?q" by (simp add: pre_shrink_def)
  have h3: "0 \<le> im_w ?q" and h4: "0 \<le> im_h ?q" by simp_all
  show ?thesis
    using regenerate_thumbnail_padding [OF h1 h2 h3 h4] by (simp add: Let_def)
qed

text \<open>
  C5 as stated gives one rule for every picture: columns are added when
  \<open>rnd (4h/3) > w\<close>. For a 1200 by 1600 picture \<open>rnd (4h/3) = 2133 > 1200\<close>, yet the
  picture is stored unpadded: for \<open>h > w\<close> the code compares \<open>rnd (3h/4) = 1200\<close> with
  \<open>w\<close> and \<open>rnd (4w/3) = 1600\<close> with \<open>h\<close>.
\<close>

theorem regenerate_thumbnail_portrait_counterexample:
  "\<lfloor>real_of_int (4 * 1600) / 3 + 1/2\<rfloor> > (1200 :: int) \<and>
   md_thumbnail (fst (regenerate_thumbnail
      \<lparr>cv2 = False, pil = True, qt_read = \<lparr>im_w = 1200, im_h = 1600, pic_x = 0, pic_y = 0\<rparr>,
       cv_read = NotOpened, scaled_6000 = id\<rparr>
      \<lparr>file_path = ''a.jpg'', file_type = ''image/jpeg'', md_orientation = None,
       md_thumbnail = None\<rparr>)) =
   Some \<lparr>th_source = \<lparr>im_w = 1200, im_h = 1600, pic_x = 0, pic_y = 0\<rparr>,
         th_scaler = PIL_resize, th_fmt = ''JPEG'', th_w = 120, th_h = 160\<rparr>"
proof -
  have a: "round_div 4800 3 = 1600" "round_div 4800 4 = 1200"
    by (simp_all add: round_div_def py_int_def)
  have b: "\<lfloor>real_of_int (4 * 1600) / 3 + 1/2\<rfloor> = (2133 :: int)"
    by (simp add: floor_eq_iff)
  show ?thesis
    unfolding b
    by (simp add: regenerate_thumbnail_def read_image_def starts_with_def is_null_def
        pre_shrink_def pad_picture_def a)
qed

text \<open>
  C8. If Qt reads a null image and, for a file whose type starts with \<^verbatim>\<open>video\<close>, the
  OpenCV fallback gives nothing or a null image as well, \<^verbatim>\<open>regenerate_thumbnail\<close>
  logs one error and leaves the image file, its thumbnail included, as it was. So if the
  thumbnail has changed, the image data was read, by Qt or by the fallback.
\<close>

theorem regenerate_thumbnail_unreadable:
  "(is_null (qt_read lib) \<and>
      (starts_with (file_type self) ''video'' \<longrightarrow>
         (case get_video_frame lib of None \<Rightarrow> True | Some frame \<Rightarrow> is_null frame)) \<longrightarrow>
    regenerate_thumbnail lib self =
      (self, [''Cannot read '' @ file_type self @ '' image data from '' @ file_path self])) \<and>
   (md_thumbnail (fst (regenerate_thumbnail lib self)) \<noteq> md_thumbnail self \<longrightarrow>
      \<not> is_null (qt_read lib) \<or>
      (starts_with (file_type self) ''video'' \<and>
       (\<exists>frame. get_video_frame lib = Some frame \<and> \<not> is_null frame)))"
  by (auto simp: regenerate_thumbnail_def read_image_def Let_def
      split: option.splits if_splits prod.splits)

text \<open>A video that neither Qt nor OpenCV can read.\<close>

theorem regenerate_thumbnail_unreadable_witness:
  "regenerate_thumbnail
      \<lparr>cv2 = True, pil = True, qt_read = \<lparr>im_w = 0, im_h = 0, pic_x = 0, pic_y = 0\<rparr>,
       cv_read = ReadFailed, scaled_6000 = id\<rparr>
      \<lparr>file_path = ''a.mp4'', file_type = ''video/mp4'', md_orientation = None,
       md_thumbnail = None\<rparr> =
   (\<lparr>file_path = ''a.mp4'', file_type = ''video/mp4'', md_orientation = None,
       md_thumbnail = None\<rparr>, [''Cannot read video/mp4 image data from a.mp4''])"
proof -
  let ?lib = "\<lparr>cv2 = True, pil = True, qt_read = \<lparr>im_w = 0, im_h = 0, pic_x = 0, pic_y = 0\<rparr>,
       cv_read = ReadFailed, scaled_6000 = id\<rparr>"
  have h1: "is_null (qt_read ?lib)" by (simp add: is_null_def)
  have h2: "get_video_frame ?lib = None" by (simp add: get_video_frame_def)
  show ?thesis
    using regenerate_thumbnail_unreadable [of ?lib "\<lparr>file_path = ''a.mp4'', file_type = ''video/mp4'',
        md_orientation = None, md_thumbnail = None\<rparr>"] h1 h2
    by simp
qed

subsection \<open>NameMangler.transform\<close>

lemma map_of_make_subst:
  "map_of (make_subst entry) ''number'' =
     Some (if findall_digits [] (fi_name entry) = [] then []
           else last (findall_digits [] (fi_name entry)))"
  "fi_camera entry = None \<Longrightarrow>
   map_of (make_subst entry) ''camera'' = Some ''unknown_camera''"
  "fi_camera entry = Some c \<Longrightarrow> c \<noteq> [] \<Longrightarrow>
   map_of (make_subst entry) ''camera'' = Some (replace_spaces c)"
  by (simp_all add: make_subst_def Let_def case_prod_beta replace_spaces_def)

lemma transform_caught:
  "py_format render fmt (make_subst entry) = Inl KeyError \<or>
   py_format render fmt (make_subst entry) = Inl ValueError \<Longrightarrow>
   transform strftime render (Some fmt) entry = strftime (fi_timestamp entry) fmt"
  by (auto simp: transform_def)

lemma transform_formatted:
  "py_format render fmt (make_subst entry) = Inr result \<Longrightarrow>
   transform strftime render (Some fmt) entry = strftime (fi_timestamp entry) result"
  by (simp add: transform_def)

lemma transform_unknown_key:
  "transform strftime render (Some ''{nope}'') entry =
     strftime (fi_timestamp entry) ''{nope}''"
  by (simp add: transform_def py_format_def format_field_def make_subst_def is_digit_def
      Let_def case_prod_beta)

lemma transform_single_brace:
  "transform strftime render (Some ''{name'') entry =
     strftime (fi_timestamp entry) ''{name''"
  by (simp add: transform_def py_format_def)

text \<open>
  C9. The claim has \<^verbatim>\<open>transform\<close> return a string for every format string. The
  format string \<^verbatim>\<open>{}\<close> asks for a positional argument, \<^verbatim>\<open>format(**subst)\<close> has
  none, and the \<^verbatim>\<open>IndexError\<close> is not among the exceptions \<^verbatim>\<open>transform\<close>
  catches: it leaves \<^verbatim>\<open>transform\<close>, whatever the file entry.
\<close>

theorem transform_positional_field_raises:
  "transform strftime render (Some ''{}'') entry = Inl IndexError"
  by (simp add: transform_def py_format_def format_field_def)

subsection \<open>Storing a time stamp\<close>

lemma length_zero_padded [simp]: "length (zero_padded n k) = n"
  by (induction n arbitrary: k) auto

lemma digit_char_props:
  assumes "d < 10"
  shows "is_digit (digit_char d) \<and> digit_value (digit_char d) = d"
proof -
  have "d \<in> {0, 1, 2, 3, 4, 5, 6, 7, 8, 9}" using assms by auto
  then show ?thesis
    by (auto simp: digit_char_def is_digit_def digit_value_def)
qed

lemma zero_padded_digits: "list_all is_digit (zero_padded n k)"
  by (induction n arbitrary: k) (auto simp: digit_char_props)

lemma zero_padded_value:
  "k < 10 ^ n \<Longrightarrow> foldl (\<lambda>a c. 10 * a + digit_value c) 0 (zero_padded n k) = k"
proof (induction n arbitrary: k)
  case 0
  then show ?case by simp
next
  case (Suc n)
  then have "k div 10 < 10 ^ n" by (simp add: less_mult_imp_div_less mult.commute)
  with Suc.IH have "foldl (\<lambda>a c. 10 * a + digit_value c) 0 (zero_padded n (k div 10)) = k div 10" .
  then show ?case by (simp add: digit_char_props)
qed

lemma parse_zero_padded:
  "0 < n \<Longrightarrow> k < 10 ^ n \<Longrightarrow> parse_digits (zero_padded n k) = Some k"
  using length_zero_padded [of n k]
  by (auto simp: parse_digits_def zero_padded_digits zero_padded_value simp del: length_zero_padded)

lemma isoformat_nth:
  "isoformat (y, m, d, hh, mm, ss, us) ! 4 = CHR ''-''"
  "isoformat (y, m, d, hh, mm, ss, us) ! 7 = CHR ''-''"
  "isoformat (y, m, d, hh, mm, ss, us) ! 10 = CHR '' ''"
  "isoformat (y, m, d, hh, mm, ss, us) ! 13 = CHR '':''"
  "isoformat (y, m, d, hh, mm, ss, us) ! 16 = CHR '':''"
  "us \<noteq> 0 \<Longrightarrow> isoformat (y, m, d, hh, mm, ss, us) ! 19 = CHR ''.''"
  by (simp_all add: nth_append del: zero_padded.simps)

lemma isoformat_fields:
  "take 4 (isoformat (y, m, d, hh, mm, ss, us)) = zero_padded 4 y"
  "take 2 (drop 5 (isoformat (y, m, d, hh, mm, ss, us))) = zero_padded 2 m"
  "take 2 (drop 8 (isoformat (y, m, d, hh, mm, ss, us))) = zero_padded 2 d"
  "take 2 (drop 11 (isoformat (y, m, d, hh, mm, ss, us))) = zero_padded 2 hh"
  "take 2 (drop 14 (isoformat (y, m, d, hh, mm, ss, us))) = zero_padded 2 mm"
  "take 2 (drop 17 (isoformat (y, m, d, hh, mm, ss, us))) = zero_padded 2 ss"
  "us \<noteq> 0 \<Longrightarrow> take 6 (drop 20 (isoformat (y, m, d, hh, mm, ss, us))) = zero_padded 6 us"
  by (simp_all del: zero_padded.simps)

lemma isoformat_length:
  "length (isoformat (y, m, d, hh, mm, ss, us)) = (if us = 0 then 19 else 26)"
  by (simp del: zero_padded.simps)

lemma parse_since_isoformat:
  assumes "valid_datetime t"
  shows "parse_since (isoformat t) = Inr t"
proof -
  obtain y m d hh mm ss us where t: "t = (y, m, d, hh, mm, ss, us)"
    by (cases t) auto
  have v: "valid_datetime (y, m, d, hh, mm, ss, us)" using assms t by simp
  have dm: "days_in_month y m \<le> 31" by (simp add: days_in_month_def)
  have p: "parse_digits (zero_padded 4 y) = Some y" "parse_digits (zero_padded 2 m) = Some m"
    "parse_digits (zero_padded 2 d) = Some d" "parse_digits (zero_padded 2 hh) = Some hh"
    "parse_digits (zero_padded 2 mm) = Some mm" "parse_digits (zero_padded 2 ss) = Some ss"
    "parse_digits (zero_padded 6 us) = Some us"
    using v dm by (simp_all add: parse_zero_padded del: zero_padded.simps)
  show ?thesis
    unfolding t parse_since_def strptime_def isoformat_nth isoformat_length
    using v p
    by (auto simp: isoformat_nth isoformat_fields simp del: isoformat.simps
        valid_datetime.simps zero_padded.simps)
qed

subsection \<open>Importer: the copy loop\<close>

lemma sort_by_Nil [simp]: "sort_by le [] = []"
  by (simp add: sort_by_def)

lemma new_file_list_empty:
  "new_file_list env [] s = Inr (s\<lparr>file_list := [], file_data := [], file_list_widget := []\<rparr>)"
  by (simp add: new_file_list_def sort_file_list_def show_file_list_def)

lemma fail_eq:
  "fail env s =
     (if selector_index s = 0 then s\<lparr>events := events s @ [Failed]\<rparr>
      else s\<lparr>events := events s @ [Failed], selector_index := 0, source := None,
             file_list := [], file_data := [], file_list_widget := []\<rparr>)"
  by (simp add: fail_def new_file_list_empty Let_def)

lemma fail_fields [simp]:
  "events (fail env s) = events s @ [Failed]"
  "selector_index (fail env s) = 0"
  "logged (fail env s) = logged s"
  "fs_files (fail env s) = fs_files s"
  "image_list (fail env s) = image_list s"
  "polls (fail env s) = polls s"
  "config_store (fail env s) = config_store s"
  "config_section (fail env s) = config_section s"
  "import_in_progress (fail env s) = import_in_progress s"
  by (simp_all add: fail_eq)

lemma abort_copy_fields:
  "abort_copy env s = (a, s') \<Longrightarrow>
     a = (\<not> (fst (e_poll env (polls s)) \<and> snd (e_poll env (polls s)))) \<and>
     events s' = events s @ [Polled a] \<and> polls s' = Suc (polls s) \<and>
     logged s' = logged s \<and> fs_files s' = fs_files s \<and> image_list s' = image_list s \<and>
     selector_index s' = selector_index s \<and> source s' = source s \<and>
     config_store s' = config_store s \<and> config_section s' = config_section s \<and>
     file_data s' = file_data s \<and> file_list s' = file_list s \<and>
     file_list_widget s' = file_list_widget s \<and> nm_format_string s' = nm_format_string s \<and>
     import_in_progress s' = import_in_progress s"
  by (auto simp: abort_copy_def Let_def split: prod.splits)

lemma copy_file_None:
  "copy_file env src info s = (None, s') \<Longrightarrow>
     events s' = events s \<and> polls s' = polls s \<and> fs_files s' = fs_files s \<and>
     image_list s' = image_list s \<and> config_store s' = config_store s \<and>
     config_section s' = config_section s \<and>
     (case src of
        FolderSource folder \<Rightarrow> logged s' = logged s
      | CameraSource model port_name \<Rightarrow>
          logged s' = logged s @ [the (e_camera_get env info)])"
  by (auto simp: copy_file_def split: source.splits if_splits option.splits)

lemma copy_file_Some:
  "copy_file env src info s = (Some item, s') \<Longrightarrow>
     item = info \<and> events s' = events s @ [Copied info] \<and> polls s' = polls s \<and>
     fs_files s' = insert (fi_dest_path info) (fs_files s) \<and> logged s' = logged s \<and>
     image_list s' = image_list s \<and> selector_index s' = selector_index s \<and>
     source s' = source s \<and> config_store s' = config_store s \<and>
     config_section s' = config_section s \<and> file_data s' = file_data s \<and>
     file_list s' = file_list s \<and> file_list_widget s' = file_list_widget s \<and>
     nm_format_string s' = nm_format_string s \<and> import_in_progress s' = import_in_progress s"
  by (auto simp: copy_file_def split: source.splits if_splits option.splits)

lemma copy_loop_shape:
  "copy_loop env src copy_list li s = (li', s') \<Longrightarrow>
   \<exists>n rest. n \<le> length copy_list \<and>
     events s' = events s @ concat (map full_turn (take n copy_list)) @ rest \<and>
     li' = foldl update_last_item li (take n copy_list) \<and>
     (rest = [] \<and> n = length copy_list \<or>
      n < length copy_list \<and>
        (rest = [Failed] \<or>
         rest = [Copied (copy_list ! n), Polled True] \<or>
         rest = [Copied (copy_list ! n), Polled False,
                 Opened (fi_dest_path (copy_list ! n)), Polled True]))"
proof (induction copy_list arbitrary: li s)
  case Nil
  then show ?case by simp
next
  case (Cons info copy_list)
  obtain r s1 where cf: "copy_file env src info s = (r, s1)" by (cases "copy_file env src info s")
  show ?case
  proof (cases r)
    case None
    with cf Cons.prems have "li' = li" "s' = fail env s1" by auto
    moreover from cf None have "events s1 = events s" by (auto dest: copy_file_None)
    ultimately have "events s' = events s @ concat (map full_turn (take 0 (info # copy_list))) @ [Failed]"
      "li' = foldl update_last_item li (take 0 (info # copy_list))"
      by simp_all
    then show ?thesis by (intro exI [of _ 0] exI [of _ "[Failed]"]) simp
  next
    case (Some item)
    with cf have item: "item = info" and e1: "events s1 = events s @ [Copied info]"
      by (auto dest: copy_file_Some)
    obtain a1 s2 where ab1: "abort_copy env s1 = (a1, s2)" by (cases "abort_copy env s1")
    then have e2: "events s2 = events s1 @ [Polled a1]" by (auto dest: abort_copy_fields)
    show ?thesis
    proof (cases a1)
      case True
      with cf Some ab1 Cons.prems have "li' = li" "s' = s2" by auto
      with e1 e2 True have
        "events s' = events s @ concat (map full_turn (take 0 (info # copy_list))) @
           [Copied ((info # copy_list) ! 0), Polled True]"
        "li' = foldl update_last_item li (take 0 (info # copy_list))"
        by simp_all
      then show ?thesis
        by (intro exI [of _ 0] exI [of _ "[Copied ((info # copy_list) ! 0), Polled True]"]) simp
    next
      case False
      define s3 where "s3 = s2\<lparr>image_list :=
                          open_file (e_abspath env) (\<lambda>p. p \<in> fs_files s2) (image_list s2)
                            (fi_dest_path item),
                        events := events s2 @ [Opened (fi_dest_path item)]\<rparr>"
      obtain a2 s4 where ab2: "abort_copy env s3 = (a2, s4)" by (cases "abort_copy env s3")
      then have e4: "events s4 = events s3 @ [Polled a2]" by (auto dest: abort_copy_fields)
      have e3: "events s3 = events s2 @ [Opened (fi_dest_path info)]"
        by (simp add: s3_def item)
      show ?thesis
      proof (cases a2)
        case True
        with cf Some ab1 False ab2 Cons.prems have "li' = li" "s' = s4"
          by (auto simp: s3_def Let_def)
        with e1 e2 e3 e4 True False have
          "events s' = events s @ concat (map full_turn (take 0 (info # copy_list))) @
             [Copied ((info # copy_list) ! 0), Polled False,
              Opened (fi_dest_path ((info # copy_list) ! 0)), Polled True]"
          "li' = foldl update_last_item li (take 0 (info # copy_list))"
          by simp_all
        then show ?thesis
          by (intro exI [of _ 0] exI [of _ "[Copied ((info # copy_list) ! 0), Polled False,
              Opened (fi_dest_path ((info # copy_list) ! 0)), Polled True]"]) simp
      next
        case a2: False
        with cf Some ab1 False ab2 Cons.prems
        have rec: "copy_loop env src copy_list (update_last_item li info) s4 = (li', s')"
          by (auto simp: s3_def Let_def update_last_item_def item)
        from Cons.IH [OF rec] obtain n rest where
          n: "n \<le> length copy_list"
          and ev: "events s' = events s4 @ concat (map full_turn (take n copy_list)) @ rest"
          and li: "li' = foldl update_last_item (update_last_item li info) (take n copy_list)"
          and rest: "rest = [] \<and> n = length copy_list \<or>
            n < length copy_list \<and>
              (rest = [Failed] \<or>
               rest = [Copied (copy_list ! n), Polled True] \<or>
               rest = [Copied (copy_list ! n), Polled False,
                       Opened (fi_dest_path (copy_list ! n)), Polled True])"
          by blast
        have "events s4 = events s @ full_turn info"
          using e1 e2 e3 e4 False a2 by (simp add: full_turn_def)
        with ev have ev': "events s' =
            events s @ concat (map full_turn (take (Suc n) (info # copy_list))) @ rest"
          by simp
        from li have li'': "li' = foldl update_last_item li (take (Suc n) (info # copy_list))"
          by simp
        from n rest ev' li'' show ?thesis
          by (intro exI [of _ "Suc n"] exI [of _ rest]) auto
      qed
    qed
  qed
qed

lemma polled_append [simp]: "polled (xs @ ys) = polled xs @ polled ys"
  by (induction xs rule: polled.induct) auto

lemma copied_append [simp]: "copied (xs @ ys) = copied xs @ copied ys"
  by (induction xs rule: copied.induct) auto

lemma fail_source:
  "logged (fail env s) = logged s \<and> nm_format_string (fail env s) = nm_format_string s"
  by (simp add: fail_eq)

lemma copy_loop_effects:
  "copy_loop env src copy_list li s = (li', s') \<Longrightarrow>
   \<exists>tr. events s' = events s @ tr \<and>
     polls s \<le> polls s' \<and>
     polled tr = map (\<lambda>k. \<not> (fst (e_poll env k) \<and> snd (e_poll env k))) [polls s ..< polls s'] \<and>
     fs_files s' = fs_files s \<union> set (copied tr) \<and>
     config_store s' = config_store s \<and> config_section s' = config_section s \<and>
     import_in_progress s' = import_in_progress s \<and>
     nm_format_string s' = nm_format_string s \<and>
     (Failed \<notin> set tr \<longrightarrow>
        source s' = source s \<and> file_data s' = file_data s \<and> file_list s' = file_list s \<and>
        file_list_widget s' = file_list_widget s \<and> selector_index s' = selector_index s \<and>
        logged s' = logged s) \<and>
     (Failed \<in> set tr \<longrightarrow>
        selector_index s' = 0 \<and>
        (case src of
           FolderSource folder \<Rightarrow> logged s' = logged s
         | CameraSource model port_name \<Rightarrow>
             (\<exists>info \<in> set copy_list. \<exists>ex. e_camera_get env info = Some ex \<and>
                logged s' = logged s @ [ex])))"
proof (induction copy_list arbitrary: li s)
  case Nil
  then show ?case by (auto intro!: exI [of _ "[]"])
next
  case (Cons info copy_list)
  let ?f = "\<lambda>k. \<not> (fst (e_poll env k) \<and> snd (e_poll env k))"
  obtain r s1 where cf: "copy_file env src info s = (r, s1)" by (cases "copy_file env src info s")
  show ?case
  proof (cases r)
    case None
    with cf Cons.prems have s': "s' = fail env s1" by auto
    from cf None have f: "events s1 = events s" "polls s1 = polls s" "fs_files s1 = fs_files s"
      "config_store s1 = config_store s" "config_section s1 = config_section s"
      "import_in_progress s1 = import_in_progress s" "nm_format_string s1 = nm_format_string s"
      by (auto simp: copy_file_def split: source.splits if_splits option.splits)
    from cf None have lg: "case src of
           FolderSource folder \<Rightarrow> logged s1 = logged s
         | CameraSource model port_name \<Rightarrow>
             (\<exists>ex. e_camera_get env info = Some ex \<and> logged s1 = logged s @ [ex])"
      by (auto simp: copy_file_def split: source.splits if_splits option.splits)
    show ?thesis
      using s' f lg
      by (intro exI [of _ "[Failed]"]) (auto simp: fail_eq split: source.splits)
  next
    case (Some item)
    with cf have item: "item = info" and f1: "events s1 = events s @ [Copied info]"
      "polls s1 = polls s" "fs_files s1 = insert (fi_dest_path info) (fs_files s)"
      "logged s1 = logged s" "selector_index s1 = selector_index s" "source s1 = source s"
      "config_store s1 = config_store s" "config_section s1 = config_section s"
      "file_data s1 = file_data s" "file_list s1 = file_list s"
      "file_list_widget s1 = file_list_widget s" "nm_format_string s1 = nm_format_string s"
      "import_in_progress s1 = import_in_progress s"
      using copy_file_Some [of env src info s item s1] by simp_all
    obtain a1 s2 where ab1: "abort_copy env s1 = (a1, s2)" by (cases "abort_copy env s1")
    note f2 = abort_copy_fields [OF ab1]
    show ?thesis
    proof (cases a1)
      case True
      with cf Some ab1 Cons.prems have s': "s' = s2" by auto
      show ?thesis
        using s' f1 f2 True
        by (intro exI [of _ "[Copied info, Polled True]"]) (auto simp: upt_rec)
    next
      case False
      define s3 where "s3 = s2\<lparr>image_list :=
                          open_file (e_abspath env) (\<lambda>p. p \<in> fs_files s2) (image_list s2)
                            (fi_dest_path item),
                        events := events s2 @ [Opened (fi_dest_path item)]\<rparr>"
      obtain a2 s4 where ab2: "abort_copy env s3 = (a2, s4)" by (cases "abort_copy env s3")
      note f4 = abort_copy_fields [OF ab2]
      have f3: "events s3 = events s2 @ [Opened (fi_dest_path info)]" "polls s3 = polls s2"
        "fs_files s3 = fs_files s2" "logged s3 = logged s2"
        "selector_index s3 = selector_index s2" "source s3 = source s2"
        "config_store s3 = config_store s2" "config_section s3 = config_section s2"
        "file_data s3 = file_data s2" "file_list s3 = file_list s2"
        "file_list_widget s3 = file_list_widget s2" "nm_format_string s3 = nm_format_string s2"
        "import_in_progress s3 = import_in_progress s2"
        by (simp_all add: s3_def item)
      have all4: "events s4 = events s @ [Copied info, Polled a1, Opened (fi_dest_path info), Polled a2]"
        "polls s4 = Suc (Suc (polls s))" "fs_files s4 = insert (fi_dest_path info) (fs_files s)"
        "logged s4 = logged s" "selector_index s4 = selector_index s" "source s4 = source s"
        "config_store s4 = config_store s" "config_section s4 = config_section s"
        "file_data s4 = file_data s" "file_list s4 = file_list s"
        "file_list_widget s4 = file_list_widget s" "nm_format_string s4 = nm_format_string s"
        "import_in_progress s4 = import_in_progress s"
        using f1 f2 f3 f4 by simp_all
      have a1: "a1 = ?f (polls s)" using f2 f1 by simp
      have a2: "a2 = ?f (Suc (polls s))" using f4 f3 f2 f1 by simp
      show ?thesis
      proof (cases a2)
        case True
        with cf Some ab1 False ab2 Cons.prems have s': "s' = s4"
          by (auto simp: s3_def Let_def)
        have u: "[polls s ..< Suc (Suc (polls s))] = [polls s, Suc (polls s)]"
          by (simp add: upt_rec)
        show ?thesis
          using s' all4 a1 a2 u
          by (intro exI [of _ "[Copied info, Polled a1, Opened (fi_dest_path info), Polled a2]"])
            (simp add: True)
      next
        case a2F: False
        with cf Some ab1 False ab2 Cons.prems
        have rec: "copy_loop env src copy_list (update_last_item li info) s4 = (li', s')"
          by (auto simp: s3_def Let_def update_last_item_def item)
        from Cons.IH [OF rec] obtain tr where tr:
          "events s' = events s4 @ tr" "polls s4 \<le> polls s'"
          "polled tr = map ?f [polls s4 ..< polls s']"
          "fs_files s' = fs_files s4 \<union> set (copied tr)"
          "config_store s' = config_store s4" "config_section s' = config_section s4"
          "import_in_progress s' = import_in_progress s4"
          "nm_format_string s' = nm_format_string s4"
          "Failed \<notin> set tr \<longrightarrow>
            source s' = source s4 \<and> file_data s' = file_data s4 \<and> file_list s' = file_list s4 \<and>
            file_list_widget s' = file_list_widget s4 \<and> selector_index s' = selector_index s4 \<and>
            logged s' = logged s4"
          "Failed \<in> set tr \<longrightarrow>
            selector_index s' = 0 \<and>
            (case src of
               FolderSource folder \<Rightarrow> logged s' = logged s4
             | CameraSource model port_name \<Rightarrow>
                 (\<exists>info \<in> set copy_list. \<exists>ex. e_camera_get env info = Some ex \<and>
                    logged s' = logged s4 @ [ex]))"
          by blast
        let ?tr = "[Copied info, Polled a1, Opened (fi_dest_path info), Polled a2] @ tr"
        have u: "[polls s ..< polls s'] = polls s # Suc (polls s) # [polls s4 ..< polls s']"
          using tr(2) all4(2) by (simp add: upt_rec)
        have "events s' = events s @ ?tr" using tr(1) all4(1) by simp
        moreover have "polls s \<le> polls s'" using tr(2) all4(2) by simp
        moreover have "polled ?tr = map ?f [polls s ..< polls s']"
          unfolding u using tr(3) a1 a2 by simp
        moreover have "fs_files s' = fs_files s \<union> set (copied ?tr)"
          using tr(4) all4(3) by simp
        moreover have "config_store s' = config_store s" "config_section s' = config_section s"
          "import_in_progress s' = import_in_progress s"
          "nm_format_string s' = nm_format_string s"
          using tr(5-8) all4 by simp_all
        moreover have "Failed \<notin> set ?tr \<longrightarrow>
            source s' = source s \<and> file_data s' = file_data s \<and> file_list s' = file_list s \<and>
            file_list_widget s' = file_list_widget s \<and> selector_index s' = selector_index s \<and>
            logged s' = logged s"
          using tr(9) all4 by simp
        moreover have "Failed \<in> set ?tr \<longrightarrow>
            selector_index s' = 0 \<and>
            (case src of
               FolderSource folder \<Rightarrow> logged s' = logged s
             | CameraSource model port_name \<Rightarrow>
                 (\<exists>info \<in> set (info # copy_list). \<exists>ex. e_camera_get env info = Some ex \<and>
                    logged s' = logged s @ [ex]))"
          using tr(10) all4 by (auto split: source.splits)
        ultimately show ?thesis by (intro exI [of _ ?tr]) blast
      qed
    qed
  qed
qed

lemma show_file_list_fields:
  "show_file_list env s = Inr s' \<Longrightarrow>
     events s' = events s \<and> polls s' = polls s \<and> fs_files s' = fs_files s \<and>
     logged s' = logged s \<and> selector_index s' = selector_index s \<and> source s' = source s \<and>
     config_store s' = config_store s \<and> config_section s' = config_section s \<and>
     image_list s' = image_list s \<and> nm_format_string s' = nm_format_string s \<and>
     file_list s' = file_list s"
  by (auto simp: show_file_list_def split: sum.splits prod.splits)

lemma done_opening_fields [simp]:
  "events (done_opening env p s) = events s"
  "polls (done_opening env p s) = polls s"
  "fs_files (done_opening env p s) = fs_files s"
  "logged (done_opening env p s) = logged s"
  "selector_index (done_opening env p s) = selector_index s"
  "source (done_opening env p s) = source s"
  "config_section (done_opening env p s) = config_section s"
  "file_data (done_opening env p s) = file_data s"
  "file_list (done_opening env p s) = file_list s"
  "file_list_widget (done_opening env p s) = file_list_widget s"
  "nm_format_string (done_opening env p s) = nm_format_string s"
  "config_store (done_opening env p s) (sec, ''last_transfer'') = config_store s (sec, ''last_transfer'')"
  by (simp_all add: done_opening_def config_set_def)


lemma store_last_transfer_fields [simp]:
  "events (store_last_transfer env li s) = events s"
  "polls (store_last_transfer env li s) = polls s"
  "fs_files (store_last_transfer env li s) = fs_files s"
  "logged (store_last_transfer env li s) = logged s"
  "selector_index (store_last_transfer env li s) = selector_index s"
  "source (store_last_transfer env li s) = source s"
  "config_section (store_last_transfer env li s) = config_section s"
  "file_data (store_last_transfer env li s) = file_data s"
  "file_list (store_last_transfer env li s) = file_list s"
  "file_list_widget (store_last_transfer env li s) = file_list_widget s"
  "nm_format_string (store_last_transfer env li s) = nm_format_string s"
  by (simp_all add: store_last_transfer_def split: option.splits)

lemma copy_selected_unfold:
  "copy_selected env s =
     (if import_in_progress s then Inr (s\<lparr>copy_button_checked := False\<rparr>)
      else
        case selected_entries (file_data s) (file_list_widget s) of
          Inl e \<Rightarrow> Inl e
        | Inr copy_list \<Rightarrow>
           (case source s of
              None \<Rightarrow> Inl AttributeError
            | Some src \<Rightarrow>
               (case (case src of
                        FolderSource folder \<Rightarrow> None
                      | CameraSource model port_name \<Rightarrow> e_camera_session env model port_name) of
                  Some e \<Rightarrow> Inl e
                | None \<Rightarrow>
                   (case copy_loop env src copy_list (None, datetime_min)
                           (s\<lparr>import_in_progress := True\<rparr>) of
                      (last_item, s1) \<Rightarrow>
                        (case show_file_list env (store_last_transfer env last_item s1) of
                           Inl e \<Rightarrow> Inl e
                         | Inr s3 \<Rightarrow>
                             Inr (s3\<lparr>copy_button_checked := False,
                                     import_in_progress := False\<rparr>))))))"
  by (simp add: copy_selected_def store_last_transfer_def Let_def
      split: sum.splits option.splits prod.splits)

lemma copy_selected_run:
  assumes "\<not> import_in_progress s"
    and "selected_entries (file_data s) (file_list_widget s) = Inr copy_list"
    and "copy_selected env s = Inr s'"
  shows "\<exists>src li s1 s3.
    source s = Some src \<and>
    copy_loop env src copy_list (None, datetime_min) (s\<lparr>import_in_progress := True\<rparr>) = (li, s1) \<and>
    show_file_list env (store_last_transfer env li s1) = Inr s3 \<and>
    s' = s3\<lparr>copy_button_checked := False, import_in_progress := False\<rparr>"
proof -
  obtain src where src: "source s = Some src"
    using assms by (cases "source s") (simp_all add: copy_selected_unfold)
  obtain li s1 where
    run: "copy_loop env src copy_list (None, datetime_min) (s\<lparr>import_in_progress := True\<rparr>) = (li, s1)"
    by (cases "copy_loop env src copy_list (None, datetime_min) (s\<lparr>import_in_progress := True\<rparr>)")
  from assms src run obtain s3 where
    "show_file_list env (store_last_transfer env li s1) = Inr s3"
    "s' = s3\<lparr>copy_button_checked := False, import_in_progress := False\<rparr>"
    by (cases "show_file_list env (store_last_transfer env li s1)")
      (auto simp: copy_selected_unfold split: option.splits)
  with src run show ?thesis by blast
qed

lemma copied_full_turns [simp]:
  "copied (concat (map full_turn xs)) = map fi_dest_path xs"
  by (induction xs) (simp_all add: full_turn_def)

lemma Failed_full_turns [simp]: "Failed \<notin> set (concat (map full_turn xs))"
  by (induction xs) (simp_all add: full_turn_def)

text \<open>
  C6. Let \<^verbatim>\<open>copy_selected\<close> start on the entries \<open>copy_list\<close> and return. Then the
  events of the run are full turns for the first \<open>n\<close> entries (file copied,
  \<^verbatim>\<open>abort_copy\<close> false, copy opened, \<^verbatim>\<open>abort_copy\<close> false), followed by nothing
  when every entry had its turn, or else by one of: a failure; the next file copied and
  \<^verbatim>\<open>abort_copy\<close> true; the next file copied, \<^verbatim>\<open>abort_copy\<close> false, the copy opened
  and \<^verbatim>\<open>abort_copy\<close> true. So every copy is followed by a check, and nothing is copied
  or opened after a check that says abort. The answers of \<^verbatim>\<open>abort_copy\<close> are, in
  order, whether the button is unchecked or the pane hidden after each
  \<^verbatim>\<open>processEvents()\<close>, and the files that exist afterwards are those that existed
  and the destinations recorded as copied.
\<close>

theorem copy_selected_polls_abort:
  assumes "\<not> import_in_progress s"
    and "selected_entries (file_data s) (file_list_widget s) = Inr copy_list"
    and "copy_selected env s = Inr s'"
  shows "\<exists>n rest. n \<le> length copy_list \<and>
     new_events s s' = concat (map full_turn (take n copy_list)) @ rest \<and>
     (rest = [] \<and> n = length copy_list \<or>
      n < length copy_list \<and>
        (rest = [Failed] \<or>
         rest = [Copied (copy_list ! n), Polled True] \<or>
         rest = [Copied (copy_list ! n), Polled False,
                 Opened (fi_dest_path (copy_list ! n)), Polled True])) \<and>
     polled (new_events s s') =
       map (\<lambda>k. \<not> (fst (e_poll env k) \<and> snd (e_poll env k))) [polls s ..< polls s'] \<and>
     fs_files s' = fs_files s \<union> set (copied (new_events s s'))"
proof -
  from copy_selected_run [OF assms] obtain src li s1 s3 where
    run: "copy_loop env src copy_list (None, datetime_min) (s\<lparr>import_in_progress := True\<rparr>) = (li, s1)"
    and sh: "show_file_list env (store_last_transfer env li s1) = Inr s3"
    and s': "s' = s3\<lparr>copy_button_checked := False, import_in_progress := False\<rparr>"
    by blast
  from show_file_list_fields [OF sh] s'
  have same: "events s' = events s1" "polls s' = polls s1" "fs_files s' = fs_files s1"
    by simp_all
  from copy_loop_shape [OF run] obtain n rest where
    n: "n \<le> length copy_list"
    and ev: "events s1 = events s @ concat (map full_turn (take n copy_list)) @ rest"
    and rest: "rest = [] \<and> n = length copy_list \<or>
      n < length copy_list \<and>
        (rest = [Failed] \<or>
         rest = [Copied (copy_list ! n), Polled True] \<or>
         rest = [Copied (copy_list ! n), Polled False,
                 Opened (fi_dest_path (copy_list ! n)), Polled True])"
    by auto
  from copy_loop_effects [OF run] obtain tr where
    tr: "events s1 = events s @ tr"
    and po: "polled tr = map (\<lambda>k. \<not> (fst (e_poll env k) \<and> snd (e_poll env k))) [polls s ..< polls s1]"
    and fs: "fs_files s1 = fs_files s \<union> set (copied tr)"
    by auto
  have ne: "new_events s s' = tr" using tr same by (simp add: new_events_def)
  have "tr = concat (map full_turn (take n copy_list)) @ rest" using tr ev by simp
  with n rest po fs ne same show ?thesis by auto
qed

lemmas small_run_simps =
  small_environment_def small_import_def picture_a_def picture_b_def picture_c_def
  picture_old_def
  copy_selected_def copy_file_def abort_copy_def open_file_def get_image_def new_image_list_def
  done_opening_def sort_thumbnails_def sort_by_def config_set_def show_file_list_def
  transform_def py_format_def format_field_def make_subst_def splitext_def rfind_def
  replace_spaces_def is_digit_def path_exists_def dict_set_def datetime_min_def fail_eq
  Let_def

lemma small_abort_run:
  "\<exists>s'. copy_selected (small_environment (\<lambda>n. (n \<noteq> 1, True)))
          (small_import {''/card/a.jpg'', ''/card/b.jpg''}) = Inr s' \<and>
        events s' = [Copied picture_a, Polled False, Opened ''/p/a.jpg'', Polled True] \<and>
        polls s' = 2 \<and> fs_files s' = {''/card/a.jpg'', ''/card/b.jpg'', ''/p/a.jpg''} \<and>
        config_store s' (''importer folder /card'', ''last_transfer'') = None"
  by (simp add: small_run_simps insert_commute)

text \<open>Two pictures selected; the user stops the import during the first turn, after the
  copy has been opened.\<close>

theorem copy_selected_polls_abort_witness:
  "\<exists>s' n rest.
     copy_selected (small_environment (\<lambda>n. (n \<noteq> 1, True)))
       (small_import {''/card/a.jpg'', ''/card/b.jpg''}) = Inr s' \<and>
     events s' = [Copied picture_a, Polled False, Opened ''/p/a.jpg'', Polled True] \<and>
     fs_files s' = {''/card/a.jpg'', ''/card/b.jpg'', ''/p/a.jpg''} \<and>
     n \<le> 2 \<and>
     events s' = concat (map full_turn (take n [picture_a, picture_b])) @ rest \<and>
     polled (events s') = map (\<lambda>k. \<not> (k \<noteq> 1 \<and> True)) [0 ..< polls s']"
proof -
  let ?env = "small_environment (\<lambda>n. (n \<noteq> 1, True))"
  let ?s = "small_import {''/card/a.jpg'', ''/card/b.jpg''}"
  from small_abort_run obtain s' where
    r: "copy_selected ?env ?s = Inr s'"
    and ev: "events s' = [Copied picture_a, Polled False, Opened ''/p/a.jpg'', Polled True]"
    and fs: "fs_files s' = {''/card/a.jpg'', ''/card/b.jpg'', ''/p/a.jpg''}"
    by blast
  have h1: "\<not> import_in_progress ?s" by (simp add: small_import_def)
  have h2: "selected_entries (file_data ?s) (file_list_widget ?s) = Inr [picture_a, picture_b]"
    by (simp add: small_import_def)
  have e0: "new_events ?s s' = events s'" "polls ?s = 0"
    by (simp_all add: new_events_def small_import_def)
  have p: "e_poll ?env = (\<lambda>n. (n \<noteq> 1, True))" by (simp add: small_environment_def)
  from copy_selected_polls_abort [OF h1 h2 r] obtain n rest where
    "n \<le> length [picture_a, picture_b]"
    "new_events ?s s' = concat (map full_turn (take n [picture_a, picture_b])) @ rest"
    "polled (new_events ?s s') =
       map (\<lambda>k. \<not> (fst (e_poll ?env k) \<and> snd (e_poll ?env k))) [polls ?s ..< polls s']"
    by blast
  then have "n \<le> 2"
    "events s' = concat (map full_turn (take n [picture_a, picture_b])) @ rest"
    "polled (events s') = map (\<lambda>k. \<not> (k \<noteq> 1 \<and> True)) [0 ..< polls s']"
    unfolding e0 p by simp_all
  with r ev fs show ?thesis by blast
qed

lemma copy_loop_effects_start:
  assumes "copy_loop env src copy_list li (s\<lparr>import_in_progress := True\<rparr>) = (li', s1)"
  shows "\<exists>tr. events s1 = events s @ tr \<and>
     fs_files s1 = fs_files s \<union> set (copied tr) \<and>
     config_store s1 = config_store s \<and> config_section s1 = config_section s \<and>
     nm_format_string s1 = nm_format_string s \<and>
     (Failed \<notin> set tr \<longrightarrow>
        source s1 = source s \<and> file_data s1 = file_data s \<and> file_list s1 = file_list s \<and>
        file_list_widget s1 = file_list_widget s \<and> logged s1 = logged s) \<and>
     (Failed \<in> set tr \<longrightarrow>
        selector_index s1 = 0 \<and>
        (case src of
           FolderSource folder \<Rightarrow> logged s1 = logged s
         | CameraSource model port_name \<Rightarrow>
             (\<exists>info \<in> set copy_list. \<exists>ex. e_camera_get env info = Some ex \<and>
                logged s1 = logged s @ [ex])))"
proof -
  from copy_loop_effects [OF assms] obtain tr where
    "events s1 = events (s\<lparr>import_in_progress := True\<rparr>) @ tr"
    "fs_files s1 = fs_files (s\<lparr>import_in_progress := True\<rparr>) \<union> set (copied tr)"
    "config_store s1 = config_store (s\<lparr>import_in_progress := True\<rparr>)"
    "config_section s1 = config_section (s\<lparr>import_in_progress := True\<rparr>)"
    "nm_format_string s1 = nm_format_string (s\<lparr>import_in_progress := True\<rparr>)"
    "Failed \<notin> set tr \<longrightarrow>
        source s1 = source (s\<lparr>import_in_progress := True\<rparr>) \<and>
        file_data s1 = file_data (s\<lparr>import_in_progress := True\<rparr>) \<and>
        file_list s1 = file_list (s\<lparr>import_in_progress := True\<rparr>) \<and>
        file_list_widget s1 = file_list_widget (s\<lparr>import_in_progress := True\<rparr>) \<and>
        selector_index s1 = selector_index (s\<lparr>import_in_progress := True\<rparr>) \<and>
        logged s1 = logged (s\<lparr>import_in_progress := True\<rparr>)"
    "Failed \<in> set tr \<longrightarrow>
        selector_index s1 = 0 \<and>
        (case src of
           FolderSource folder \<Rightarrow> logged s1 = logged (s\<lparr>import_in_progress := True\<rparr>)
         | CameraSource model port_name \<Rightarrow>
             (\<exists>info \<in> set copy_list. \<exists>ex. e_camera_get env info = Some ex \<and>
                logged s1 = logged (s\<lparr>import_in_progress := True\<rparr>) @ [ex]))"
    by blast
  then show ?thesis by (cases src) (auto intro!: exI [of _ tr])
qed

lemma list_files_unreadable:
  assumes "source s = Some src" and "get_file_data env src = Inr None"
  shows "list_files env s = Inr (fail env s)"
  using assms by (simp add: list_files_def)

text \<open>
  C2, amended. When \<^verbatim>\<open>get_file_data\<close> returns \<^verbatim>\<open>None\<close>, \<^verbatim>\<open>list_files\<close>
  calls \<^verbatim>\<open>_fail\<close> and returns: the selector is back at its first item, no file has
  been touched, no image opened, and nothing has been logged. When the generator of
  \<^verbatim>\<open>copy_files\<close> yields \<^verbatim>\<open>None\<close> during \<^verbatim>\<open>copy_selected\<close>, the failure is the
  last event of the run, after full turns for the entries before the unreadable one: no
  further file is copied or opened, and the selector is back at its first item. A
  \<^verbatim>\<open>FolderSource\<close> has logged nothing; a \<^verbatim>\<open>CameraSource\<close> has logged the text of
  the camera's error.
\<close>

theorem source_unreadable_aborts:
  "(source s = Some src \<and> get_file_data env src = Inr None \<longrightarrow>
      list_files env s = Inr (fail env s) \<and> new_events s (fail env s) = [Failed] \<and>
      selector_index (fail env s) = 0 \<and> logged (fail env s) = logged s \<and>
      fs_files (fail env s) = fs_files s \<and> image_list (fail env s) = image_list s) \<and>
   (\<not> import_in_progress s \<and>
    selected_entries (file_data s) (file_list_widget s) = Inr copy_list \<and>
    copy_selected env s = Inr s' \<and> Failed \<in> set (new_events s s') \<longrightarrow>
      (\<exists>n < length copy_list.
         new_events s s' = concat (map full_turn (take n copy_list)) @ [Failed] \<and>
         fs_files s' = fs_files s \<union> fi_dest_path ` set (take n copy_list)) \<and>
      selector_index s' = 0 \<and>
      (case source s of
         None \<Rightarrow> False
       | Some (FolderSource folder) \<Rightarrow> logged s' = logged s
       | Some (CameraSource model port_name) \<Rightarrow>
           (\<exists>info \<in> set copy_list. \<exists>ex. e_camera_get env info = Some ex \<and>
              logged s' = logged s @ [ex])))"
proof (intro conjI impI)
  assume a: "source s = Some src \<and> get_file_data env src = Inr None"
  then show "list_files env s = Inr (fail env s)" by (simp add: list_files_unreadable)
  show "new_events s (fail env s) = [Failed]" by (simp add: new_events_def)
  show "selector_index (fail env s) = 0" "logged (fail env s) = logged s"
    "fs_files (fail env s) = fs_files s" "image_list (fail env s) = image_list s"
    by simp_all
next
  assume a: "\<not> import_in_progress s \<and>
    selected_entries (file_data s) (file_list_widget s) = Inr copy_list \<and>
    copy_selected env s = Inr s' \<and> Failed \<in> set (new_events s s')"
  then have h: "\<not> import_in_progress s"
    "selected_entries (file_data s) (file_list_widget s) = Inr copy_list"
    "copy_selected env s = Inr s'" and failed: "Failed \<in> set (new_events s s')"
    by simp_all
  from copy_selected_run [OF h] obtain src li s1 s3 where
    src: "source s = Some src"
    and run: "copy_loop env src copy_list (None, datetime_min) (s\<lparr>import_in_progress := True\<rparr>) = (li, s1)"
    and sh: "show_file_list env (store_last_transfer env li s1) = Inr s3"
    and s': "s' = s3\<lparr>copy_button_checked := False, import_in_progress := False\<rparr>"
    by blast
  from show_file_list_fields [OF sh] s'
  have same: "events s' = events s1" "fs_files s' = fs_files s1" "logged s' = logged s1"
    "selector_index s' = selector_index s1"
    by simp_all
  from copy_loop_effects_start [OF run] obtain tr where
    tr: "events s1 = events s @ tr"
    and fs: "fs_files s1 = fs_files s \<union> set (copied tr)"
    and fl: "Failed \<in> set tr \<longrightarrow>
        selector_index s1 = 0 \<and>
        (case src of
           FolderSource folder \<Rightarrow> logged s1 = logged s
         | CameraSource model port_name \<Rightarrow>
             (\<exists>info \<in> set copy_list. \<exists>ex. e_camera_get env info = Some ex \<and>
                logged s1 = logged s @ [ex]))"
    by blast
  have ne: "new_events s s' = tr" using tr same by (simp add: new_events_def)
  with failed have ftr: "Failed \<in> set tr" by simp
  from copy_selected_polls_abort [OF h] ne obtain n rest where
    n: "n \<le> length copy_list"
    and sh: "tr = concat (map full_turn (take n copy_list)) @ rest"
    and rest: "rest = [] \<and> n = length copy_list \<or>
      n < length copy_list \<and>
        (rest = [Failed] \<or>
         rest = [Copied (copy_list ! n), Polled True] \<or>
         rest = [Copied (copy_list ! n), Polled False,
                 Opened (fi_dest_path (copy_list ! n)), Polled True])"
    by auto
  from ftr sh Failed_full_turns [of "take n copy_list"] have "Failed \<in> set rest"
    by (simp del: Failed_full_turns set_concat)
  with rest have r: "n < length copy_list" "rest = [Failed]" by auto
  show "\<exists>n < length copy_list.
         new_events s s' = concat (map full_turn (take n copy_list)) @ [Failed] \<and>
         fs_files s' = fs_files s \<union> fi_dest_path ` set (take n copy_list)"
    using r sh ne fs same by (intro exI [of _ n]) simp
  show "selector_index s' = 0" using fl ftr same by simp
  show "case source s of
         None \<Rightarrow> False
       | Some (FolderSource folder) \<Rightarrow> logged s' = logged s
       | Some (CameraSource model port_name) \<Rightarrow>
           (\<exists>info \<in> set copy_list. \<exists>ex. e_camera_get env info = Some ex \<and>
              logged s' = logged s @ [ex])"
    using fl ftr same src by (auto split: source.splits)
qed

lemma small_unreadable_run:
  "\<exists>s'. copy_selected (small_environment (\<lambda>n. (True, True))) (small_import {''/card/a.jpg''}) = Inr s' \<and>
        events s' = [Copied picture_a, Polled False, Opened ''/p/a.jpg'', Polled False, Failed] \<and>
        fs_files s' = {''/card/a.jpg'', ''/p/a.jpg''} \<and> logged s' = [] \<and> source s' = None"
  by (simp add: small_run_simps insert_commute)

text \<open>The second picture has gone from the card: the first is copied and opened, then the
  import fails and stops. And the folder itself has gone when the files are listed.\<close>

theorem source_unreadable_aborts_witness:
  "list_files (small_environment (\<lambda>n. (True, True))) (small_import {''/card/a.jpg''}) =
     Inr (fail (small_environment (\<lambda>n. (True, True))) (small_import {''/card/a.jpg''})) \<and>
   selector_index (fail (small_environment (\<lambda>n. (True, True))) (small_import {''/card/a.jpg''})) = 0 \<and>
   logged (fail (small_environment (\<lambda>n. (True, True))) (small_import {''/card/a.jpg''})) = [] \<and>
   (\<exists>s'. copy_selected (small_environment (\<lambda>n. (True, True))) (small_import {''/card/a.jpg''}) = Inr s' \<and>
      events s' = [Copied picture_a, Polled False, Opened ''/p/a.jpg'', Polled False, Failed] \<and>
      fs_files s' = {''/card/a.jpg'', ''/p/a.jpg''} \<and>
      selector_index s' = 0 \<and> logged s' = [])"
proof -
  let ?env = "small_environment (\<lambda>n. (True, True))"
  let ?s = "small_import {''/card/a.jpg''}"
  from small_unreadable_run obtain s' where
    r: "copy_selected ?env ?s = Inr s'"
    and ev: "events s' = [Copied picture_a, Polled False, Opened ''/p/a.jpg'', Polled False, Failed]"
    and fs: "fs_files s' = {''/card/a.jpg'', ''/p/a.jpg''}"
    by blast
  have h1: "source ?s = Some (FolderSource ''/card'')" by (simp add: small_import_def)
  have h2: "get_file_data ?env (FolderSource ''/card'') = Inr None"
    by (simp add: get_file_data_def small_environment_def)
  have h3: "\<not> import_in_progress ?s" by (simp add: small_import_def)
  have h4: "selected_entries (file_data ?s) (file_list_widget ?s) = Inr [picture_a, picture_b]"
    by (simp add: small_import_def)
  have h5: "Failed \<in> set (new_events ?s s')"
    using ev by (simp add: new_events_def small_import_def)
  have lg: "logged ?s = []" by (simp add: small_import_def)
  from source_unreadable_aborts [of ?s "FolderSource ''/card''" ?env "[picture_a, picture_b]" s']
    h1 h2 h3 h4 h5 r
  have "list_files ?env ?s = Inr (fail ?env ?s)" "selector_index (fail ?env ?s) = 0"
    "logged (fail ?env ?s) = logged ?s" "selector_index s' = 0" "logged s' = logged ?s"
    by simp_all
  with r ev fs lg show ?thesis by auto
qed

text \<open>
  C2 as stated has the failed operation log the failure. Listing a folder that has gone
  calls \<^verbatim>\<open>_fail\<close> and logs nothing.
\<close>

theorem list_files_logs_nothing_counterexample:
  "map_sum id (\<lambda>s'. (events s', logged s'))
     (list_files (small_environment (\<lambda>n. (True, True))) (small_import {''/card/a.jpg''})) =
   Inr ([Failed], [])"
  by (simp add: list_files_def get_file_data_def fail_eq small_environment_def small_import_def)

subsection \<open>Importer: the last transfer and select new\<close>

lemma update_last_item_snd:
  "snd (update_last_item li x) = max (snd li) (fi_timestamp x)"
  by (auto simp: update_last_item_def max_def)

lemma foldl_update_last_item_snd:
  "snd (foldl update_last_item li xs) = Max (insert (snd li) (fi_timestamp ` set xs))"
proof (induction xs arbitrary: li)
  case Nil
  then show ?case by simp
next
  case (Cons x xs)
  have "Max (insert (max (snd li) (fi_timestamp x)) (fi_timestamp ` set xs)) =
      Max (insert (snd li) (insert (fi_timestamp x) (fi_timestamp ` set xs)))"
    by (cases "set xs = {}") (simp_all add: max.assoc)
  with Cons [of "update_last_item li x"] show ?case
    by (simp add: update_last_item_snd)
qed

lemma foldl_update_last_item_same:
  "\<not> snd li < snd (foldl update_last_item li xs) \<Longrightarrow> foldl update_last_item li xs = li"
proof (induction xs arbitrary: li)
  case Nil
  then show ?case by simp
next
  case (Cons x xs)
  have mono: "snd (update_last_item li x) \<le> snd (foldl update_last_item (update_last_item li x) xs)"
    by (simp add: foldl_update_last_item_snd)
  have ge: "snd li \<le> snd (update_last_item li x)" by (simp add: update_last_item_snd)
  from Cons.prems have not: "\<not> snd li < snd (foldl update_last_item (update_last_item li x) xs)"
    by simp
  with mono ge have eq: "snd (update_last_item li x) = snd li" by auto
  then have "update_last_item li x = li" by (auto simp: update_last_item_def split: if_splits)
  with Cons.IH [of li] not show ?case by simp
qed

lemma foldl_update_last_item_fst:
  "snd li < snd (foldl update_last_item li xs) \<Longrightarrow>
   \<exists>i \<in> set xs. fst (foldl update_last_item li xs) = Some (fi_dest_path i)"
proof (induction xs arbitrary: li)
  case Nil
  then show ?case by simp
next
  case (Cons x xs)
  let ?li = "update_last_item li x"
  show ?case
  proof (cases "snd ?li < snd (foldl update_last_item ?li xs)")
    case True
    from Cons.IH [OF True] show ?thesis by auto
  next
    case False
    then have same: "foldl update_last_item ?li xs = ?li" by (rule foldl_update_last_item_same)
    with Cons.prems have "snd li < snd ?li" by simp
    then have "?li = (Some (fi_dest_path x), fi_timestamp x)"
      by (auto simp: update_last_item_def split: if_splits)
    with same show ?thesis by simp
  qed
qed

lemma transform_ignores_dest_path:
  "transform strftime render fmt (info\<lparr>fi_dest_path := d\<rparr>) = transform strftime render fmt info"
proof -
  have "make_subst (info\<lparr>fi_dest_path := d\<rparr>) = make_subst info"
    by (simp add: make_subst_def)
  then show ?thesis
    by (simp add: transform_def split: option.splits sum.splits py_error.splits)
qed

lemma map_of_dict_set:
  "map_of (dict_set k v d) x = (if x = k \<and> map_of d k \<noteq> None then Some v else map_of d x)"
  by (induction d) (auto simp: dict_set_def)


lemma show_items_keeps_listed:
  "show_items env s fd names = Inr (fd', items) \<Longrightarrow> listed env s fd x d \<Longrightarrow>
   listed env s fd' x d"
proof (induction names arbitrary: fd fd' items)
  case Nil
  then show ?case by simp
next
  case (Cons name names)
  from Cons.prems(1) obtain info dest fd1 items1 where
    info: "map_of fd name = Some info"
    and dest: "transform (e_strftime env) (e_render env) (nm_format_string s) info = Inr dest"
    and rec: "show_items env s (dict_set name (info\<lparr>fi_dest_path := dest\<rparr>) fd) names = Inr (fd1, items1)"
    and fd': "fd' = fd1"
    by (auto split: option.splits sum.splits prod.splits)
  have "listed env s (dict_set name (info\<lparr>fi_dest_path := dest\<rparr>) fd) x d"
  proof (cases "x = name")
    case True
    with Cons.prems(2) info dest have "d = dest" by (auto simp: listed_def)
    with True info dest show ?thesis
      by (simp add: listed_def map_of_dict_set transform_ignores_dest_path)
  next
    case False
    with Cons.prems(2) show ?thesis by (simp add: listed_def map_of_dict_set)
  qed
  from Cons.IH [OF rec this] fd' show ?case by simp
qed

lemma show_items_items:
  "show_items env s fd names = Inr (fd', items) \<Longrightarrow>
   \<forall>item \<in> set items. \<exists>info. map_of fd' (wi_name item) = Some info \<and>
      (wi_selectable item \<longleftrightarrow> \<not> path_exists env s (fi_dest_path info))"
proof (induction names arbitrary: fd fd' items)
  case Nil
  then show ?case by simp
next
  case (Cons name names)
  from Cons.prems(1) obtain info dest items1 where
    info: "map_of fd name = Some info"
    and dest: "transform (e_strftime env) (e_render env) (nm_format_string s) info = Inr dest"
    and rec: "show_items env s (dict_set name (info\<lparr>fi_dest_path := dest\<rparr>) fd) names = Inr (fd', items1)"
    and items: "items = \<lparr>wi_name = name, wi_selectable = \<not> path_exists env s dest,
                         wi_selected = False\<rparr> # items1"
    by (auto split: option.splits sum.splits prod.splits)
  have "listed env s (dict_set name (info\<lparr>fi_dest_path := dest\<rparr>) fd) name dest"
    using info dest by (simp add: listed_def map_of_dict_set transform_ignores_dest_path)
  from show_items_keeps_listed [OF rec this]
  have "\<exists>info. map_of fd' name = Some info \<and> fi_dest_path info = dest"
    by (auto simp: listed_def)
  with Cons.IH [OF rec] items show ?case by auto
qed

lemma select_rows_selects:
  assumes "\<forall>item \<in> set items. map_of fd (wi_name item) \<noteq> None"
  shows "select_rows fd since items =
    Inr (map (\<lambda>item. item\<lparr>wi_selected :=
               wi_selectable item \<and> since < fi_timestamp (the (map_of fd (wi_name item)))\<rparr>) items)"
  using assms by (induction items) auto

lemma select_new_selects:
  assumes "source s \<noteq> None"
    and "config_store s (config_section s, ''last_transfer'') = Some (isoformat since)"
    and "valid_datetime since"
    and "\<forall>item \<in> set (file_list_widget s). map_of (file_data s) (wi_name item) \<noteq> None"
  shows "select_new s =
    Inr (s\<lparr>file_list_widget :=
          map (\<lambda>item. item\<lparr>wi_selected :=
                 wi_selectable item \<and>
                 since < fi_timestamp (the (map_of (file_data s) (wi_name item)))\<rparr>)
            (file_list_widget s)\<rparr>)"
proof -
  have "select_new s = select_files since s"
    using assms(1,2,3) by (simp add: select_new_def config_get_def parse_since_isoformat)
  also have "\<dots> = Inr (s\<lparr>file_list_widget :=
          map (\<lambda>item. item\<lparr>wi_selected :=
                 wi_selectable item \<and>
                 since < fi_timestamp (the (map_of (file_data s) (wi_name item)))\<rparr>)
            (file_list_widget s)\<rparr>)"
    using select_rows_selects [OF assms(4), of since]
    by (cases "file_list_widget s = []") (simp_all add: select_files_def)
  finally show ?thesis .
qed

lemma store_last_transfer_config:
  "config_store (store_last_transfer env li s1) (config_section s1, ''last_transfer'') =
     (case fst li of
        None \<Rightarrow> config_store s1 (config_section s1, ''last_transfer'')
      | Some dest \<Rightarrow>
          if dest = [] then config_store s1 (config_section s1, ''last_transfer'')
          else Some (isoformat (snd li)))"
  by (simp add: store_last_transfer_def done_opening_def config_set_def split: option.splits)

lemma show_file_list_items:
  assumes "show_file_list env s = Inr s'"
  shows "\<forall>item \<in> set (file_list_widget s'). \<exists>info.
     map_of (file_data s') (wi_name item) = Some info \<and>
     (wi_selectable item \<longleftrightarrow> \<not> path_exists env s (fi_dest_path info))"
proof -
  from assms obtain fd items where
    si: "show_items env s (file_data s) (file_list s) = Inr (fd, items)"
    and s': "s' = s\<lparr>file_data := fd, file_list_widget := items\<rparr>"
    by (auto simp: show_file_list_def split: sum.splits prod.splits)
  from show_items_items [OF si] s' show ?thesis by simp
qed

lemma last_item_of_turns:
  assumes "li = foldl update_last_item (None, datetime_min) done"
    and "\<forall>i \<in> set done. fi_dest_path i \<noteq> []"
  shows "if \<exists>i \<in> set done. datetime_min < fi_timestamp i
         then snd li = Max (fi_timestamp ` set done) \<and>
              (\<exists>dest. fst li = Some dest \<and> dest \<noteq> [])
         else fst li = None"
proof (cases "\<exists>i \<in> set done. datetime_min < fi_timestamp i")
  case True
  then obtain i where i: "i \<in> set done" "datetime_min < fi_timestamp i" by blast
  have snd: "snd li = Max (insert datetime_min (fi_timestamp ` set done))"
    using assms(1) foldl_update_last_item_snd [of "(None, datetime_min)" "done"] by simp
  have ne: "fi_timestamp ` set done \<noteq> {}" using i by auto
  have "fi_timestamp i \<le> Max (fi_timestamp ` set done)" using i by simp
  with i(2) have "datetime_min \<le> Max (fi_timestamp ` set done)" by simp
  with snd ne have m: "snd li = Max (fi_timestamp ` set done)"
    by (simp add: max_def)
  have "fi_timestamp i \<le> snd li" using i m by simp
  with i(2) have "snd (None, datetime_min) < snd (foldl update_last_item (None, datetime_min) done)"
    using assms(1) by simp
  from foldl_update_last_item_fst [OF this] assms obtain j where
    "j \<in> set done" "fst li = Some (fi_dest_path j)" by auto
  with assms(2) m True show ?thesis by auto
next
  case False
  have snd: "snd li = Max (insert datetime_min (fi_timestamp ` set done))"
    using assms(1) foldl_update_last_item_snd [of "(None, datetime_min)" "done"] by simp
  have "Max (insert datetime_min (fi_timestamp ` set done)) \<in> insert datetime_min (fi_timestamp ` set done)"
    by (intro Max_in) simp_all
  with False have "\<not> datetime_min < snd li" unfolding snd by auto
  then have "foldl update_last_item (None, datetime_min) done = (None, datetime_min)"
    using assms(1) foldl_update_last_item_same [of "(None, datetime_min)" "done"] by simp
  with assms(1) False show ?thesis by simp
qed

text \<open>
  C1, amended. Let \<^verbatim>\<open>copy_selected\<close> start on the entries \<open>copy_list\<close>, whose time
  stamps are \<^verbatim>\<open>datetime\<close> values and whose destinations are not empty, and return;
  let the first \<open>n\<close> entries be those that had a full turn of the loop (copied and
  opened with both \<^verbatim>\<open>abort_copy\<close> answers false). If one of them is later than
  \<^verbatim>\<open>datetime.min\<close>, the \<^verbatim>\<open>last_transfer\<close> stored for the source is the greatest
  time stamp among them; it is later than any time all of them are later than; and if the
  source is still set, \<^verbatim>\<open>select_new\<close> then selects exactly the items that are
  selectable and strictly later than it. Otherwise \<^verbatim>\<open>last_transfer\<close> is as before.
  After \<^verbatim>\<open>copy_selected\<close> an item is selectable exactly when nothing exists at its
  destination path.
\<close>

theorem last_transfer_select_new:
  assumes "\<not> import_in_progress s"
    and "selected_entries (file_data s) (file_list_widget s) = Inr copy_list"
    and "copy_selected env s = Inr s'"
    and "\<forall>i \<in> set copy_list. valid_datetime (fi_timestamp i) \<and> fi_dest_path i \<noteq> []"
  shows "\<exists>n rest. n \<le> length copy_list \<and>
     new_events s s' = concat (map full_turn (take n copy_list)) @ rest \<and>
     (rest = [] \<or> Failed \<in> set rest \<or> Polled True \<in> set rest) \<and>
     config_section s' = config_section s \<and>
     (if \<exists>i \<in> set (take n copy_list). datetime_min < fi_timestamp i
      then config_store s' (config_section s, ''last_transfer'') =
             Some (isoformat (Max (fi_timestamp ` set (take n copy_list)))) \<and>
           (\<forall>t. (\<forall>i \<in> set (take n copy_list). t < fi_timestamp i) \<longrightarrow>
                t < Max (fi_timestamp ` set (take n copy_list))) \<and>
           (source s' \<noteq> None \<longrightarrow>
              select_new s' =
                Inr (s'\<lparr>file_list_widget :=
                      map (\<lambda>item. item\<lparr>wi_selected :=
                             wi_selectable item \<and>
                             Max (fi_timestamp ` set (take n copy_list)) <
                               fi_timestamp (the (map_of (file_data s') (wi_name item)))\<rparr>)
                        (file_list_widget s')\<rparr>))
      else config_store s' (config_section s, ''last_transfer'') =
             config_store s (config_section s, ''last_transfer'')) \<and>
     (\<forall>item \<in> set (file_list_widget s'). \<exists>info.
        map_of (file_data s') (wi_name item) = Some info \<and>
        (wi_selectable item \<longleftrightarrow> \<not> path_exists env s' (fi_dest_path info)))"
proof -
  from copy_selected_run [OF assms(1-3)] obtain src li s1 s3 where
    run: "copy_loop env src copy_list (None, datetime_min) (s\<lparr>import_in_progress := True\<rparr>) = (li, s1)"
    and sh: "show_file_list env (store_last_transfer env li s1) = Inr s3"
    and s': "s' = s3\<lparr>copy_button_checked := False, import_in_progress := False\<rparr>"
    by blast
  let ?s2 = "store_last_transfer env li s1"
  from show_file_list_fields [OF sh] s'
  have same: "events s' = events s1" "fs_files s' = fs_files ?s2"
    "config_store s' = config_store ?s2" "config_section s' = config_section s1"
    by simp_all
  from copy_loop_shape [OF run] obtain n rest where
    n: "n \<le> length copy_list"
    and ev: "events s1 = events s @ concat (map full_turn (take n copy_list)) @ rest"
    and li: "li = foldl update_last_item (None, datetime_min) (take n copy_list)"
    and rest: "rest = [] \<and> n = length copy_list \<or>
      n < length copy_list \<and>
        (rest = [Failed] \<or>
         rest = [Copied (copy_list ! n), Polled True] \<or>
         rest = [Copied (copy_list ! n), Polled False,
                 Opened (fi_dest_path (copy_list ! n)), Polled True])"
    by auto
  let ?done = "take n copy_list"
  let ?M = "Max (fi_timestamp ` set ?done)"
  have sub: "set ?done \<subseteq> set copy_list" by (rule set_take_subset)
  from copy_loop_effects_start [OF run]
  have cfg: "config_store s1 = config_store s" "config_section s1 = config_section s"
    by auto
  have c1: "new_events s s' = concat (map full_turn ?done) @ rest"
    using ev same by (simp add: new_events_def)
  have c2: "rest = [] \<or> Failed \<in> set rest \<or> Polled True \<in> set rest"
    using rest by auto
  have c3: "config_section s' = config_section s" using same cfg by simp
  have dests: "\<forall>i \<in> set ?done. fi_dest_path i \<noteq> []" using assms(4) sub by auto
  note last = last_item_of_turns [OF li dests]
  have items: "\<forall>item \<in> set (file_list_widget s'). \<exists>info.
        map_of (file_data s') (wi_name item) = Some info \<and>
        (wi_selectable item \<longleftrightarrow> \<not> path_exists env s' (fi_dest_path info))"
    using show_file_list_items [OF sh] s' same(2) by (simp add: path_exists_def)
  have stored: "config_store s' (config_section s, ''last_transfer'') =
      (case fst li of
        None \<Rightarrow> config_store s (config_section s, ''last_transfer'')
      | Some dest \<Rightarrow>
          if dest = [] then config_store s (config_section s, ''last_transfer'')
          else Some (isoformat (snd li)))"
    using store_last_transfer_config [of env li s1] same(3) cfg
    by (simp split: option.splits)
  have c4: "if \<exists>i \<in> set ?done. datetime_min < fi_timestamp i
      then config_store s' (config_section s, ''last_transfer'') = Some (isoformat ?M) \<and>
           (\<forall>t. (\<forall>i \<in> set ?done. t < fi_timestamp i) \<longrightarrow> t < ?M) \<and>
           (source s' \<noteq> None \<longrightarrow>
              select_new s' =
                Inr (s'\<lparr>file_list_widget :=
                      map (\<lambda>item. item\<lparr>wi_selected :=
                             wi_selectable item \<and>
                             ?M < fi_timestamp (the (map_of (file_data s') (wi_name item)))\<rparr>)
                        (file_list_widget s')\<rparr>))
      else config_store s' (config_section s, ''last_transfer'') =
             config_store s (config_section s, ''last_transfer'')"
  proof (cases "\<exists>i \<in> set ?done. datetime_min < fi_timestamp i")
    case True
    with last have m: "snd li = ?M" and d: "\<exists>dest. fst li = Some dest \<and> dest \<noteq> []"
      by simp_all
    from True obtain i0 where "i0 \<in> set ?done" by blast
    then have "fi_timestamp i0 \<in> fi_timestamp ` set ?done" by (rule imageI)
    then have ne: "fi_timestamp ` set ?done \<noteq> {}"
      unfolding ex_in_conv [symmetric] by (rule exI)
    have st: "config_store s' (config_section s, ''last_transfer'') = Some (isoformat ?M)"
      using stored d m by auto
    have "?M \<in> fi_timestamp ` set ?done" using ne by (intro Max_in) simp_all
    then obtain j where j: "j \<in> set ?done" "?M = fi_timestamp j" by auto
    then have valid: "valid_datetime ?M" using assms(4) sub by auto
    have mono: "\<forall>t. (\<forall>i \<in> set ?done. t < fi_timestamp i) \<longrightarrow> t < ?M"
      using j by auto
    have sel: "select_new s' =
                Inr (s'\<lparr>file_list_widget :=
                      map (\<lambda>item. item\<lparr>wi_selected :=
                             wi_selectable item \<and>
                             ?M < fi_timestamp (the (map_of (file_data s') (wi_name item)))\<rparr>)
                        (file_list_widget s')\<rparr>)"
      if "source s' \<noteq> None"
    proof (rule select_new_selects [OF that _ valid])
      show "config_store s' (config_section s', ''last_transfer'') = Some (isoformat ?M)"
        using st c3 by simp
      show "\<forall>item \<in> set (file_list_widget s'). map_of (file_data s') (wi_name item) \<noteq> None"
        using items by auto
    qed
    from True st mono sel show ?thesis by simp
  next
    case False
    with last have "fst li = None" by simp
    with stored False show ?thesis by simp
  qed
  from n c1 c2 c3 c4 items show ?thesis by blast
qed

lemma small_full_run:
  "\<exists>s'. copy_selected (small_environment (\<lambda>n. (True, True)))
          (small_import {''/card/a.jpg'', ''/card/b.jpg'', ''/card/c.jpg'', ''/card/old.jpg''}) = Inr s' \<and>
        events s' = [Copied picture_a, Polled False, Opened ''/p/a.jpg'', Polled False,
                     Copied picture_b, Polled False, Opened ''/p/b.jpg'', Polled False] \<and>
        source s' = Some (FolderSource ''/card'') \<and>
        file_data s' = [(''a.jpg'', picture_a), (''b.jpg'', picture_b), (''c.jpg'', picture_c),
                        (''old.jpg'', picture_old)] \<and>
        file_list_widget s' =
          [\<lparr>wi_name = ''a.jpg'', wi_selectable = False, wi_selected = False\<rparr>,
           \<lparr>wi_name = ''b.jpg'', wi_selectable = False, wi_selected = False\<rparr>,
           \<lparr>wi_name = ''c.jpg'', wi_selectable = True, wi_selected = False\<rparr>,
           \<lparr>wi_name = ''old.jpg'', wi_selectable = True, wi_selected = False\<rparr>]"
  by (simp add: small_run_simps insert_commute less_prod_def less_eq_prod_def)

lemma small_stopped_run:
  "\<exists>s'. copy_selected (small_environment (\<lambda>n. (False, True)))
          (small_import {''/card/a.jpg'', ''/card/b.jpg'', ''/card/c.jpg'', ''/card/old.jpg''}) = Inr s' \<and>
        events s' = [Copied picture_a, Polled True] \<and>
        config_store s' (''importer folder /card'', ''last_transfer'') = None"
  by (simp add: small_run_simps insert_commute less_prod_def less_eq_prod_def)

end
